theory Spec2Isabelle
  imports Main
begin

section \<open>Data model of consumer.go\<close>

text \<open>
  Handles of the broker library are opaque to the program; each is identified here
  by a number chosen by the broker side. A Go \<open>error\<close> value is a message.
\<close>

type_synonym conn = nat
type_synonym chan = nat
type_synonym stream = nat
type_synonym delivery = nat
type_synonym tls_config = string

datatype go_error = GoError string

text \<open>
  Modelled from the spec: the struct \<open>client\<close> and its method \<open>close\<close> are
  declared outside consumer.go. The spec describes a Link as a transport connection
  handle, a broker channel handle and an unused confirmation slot; consumer.go
  (lines 127-131) builds it with exactly these three fields, each a nullable pointer.
\<close>

record client =
  connection :: "conn option"
  channel :: "chan option"
  confirms :: "nat option"

text \<open>\<open>amqp.Config\<close> as filled in on lines 133-141; durations are nanoseconds.\<close>

record amqp_config =
  Heartbeat :: int
  DialTimeout :: int
  TLSClientConfig :: "tls_config option"

definition Second :: int where
  "Second = 1000000000"

text \<open>A Go channel without buffer is either open or closed.\<close>

datatype gochan = Open | Closed

datatype chan_name = ClientChanChan | ClientChan | SendChan | QuitChan

datatype level = Debug | Warn | Err

datatype logarg = ArgStr string | ArgNum int | ArgErr go_error | ArgDone

text \<open>
  What the program does to its surroundings, in the order it does it: calls of the
  logger and of the broker library with their arguments (the \<open>nil\<close> argument tables
  are left out), completed channel operations, and closes.
\<close>

datatype action =
    Log level string "logarg list"
  | DialConfig string amqp_config
  | OpenChannel client
  | ExchangeDeclare client string string bool bool bool bool
  | QueueDeclare client string bool bool bool bool
  | QueueBind client string string string bool
  | HandSlot
  | HandLink client
  | Consume client string string bool bool bool bool
  | Ack delivery bool "go_error option"
  | ClientClose client
  | Forward delivery
  | Close chan_name
  | Cancel

text \<open>Where the goroutine of \<open>handle\<close> (the Delivery Pump) stands.\<close>

datatype pump_pc =
    AtRecvSlot
  | AtRecvLink
  | AtConsume
  | AtSelect
  | AtAck delivery
  | AtSend delivery
  | PumpReturned

text \<open>
  Where the goroutine started by \<open>redialConsumer\<close> (the Link Supervisor) stands; the
  local variable \<open>c\<close> travels with it.
\<close>

datatype redial_pc =
    AtOffer
  | AtDial client
  | AtChannel client
  | AtExchangeDeclare client
  | AtQueueDeclare client
  | AtQueueBind client
  | AtDeliver client
  | RedialReturned

text \<open>
  The \<open>Consumer\<close> struct (lines 12-26) together with the state of the two goroutines
  and of the application's \<open>Shutdown\<close> call.
\<close>

record sys =
  amqpURI :: string
  tls :: "tls_config option"
  exchange :: string
  exchangeType :: string
  queue :: string
  routingKey :: string
  ctag :: string
  client :: "client option"
  clientChanChan :: gochan
  sendChan :: gochan
  ctx_done :: bool
  quit :: gochan
  clientChan :: gochan
  pump :: pump_pc
  deliveries :: "stream option"
  redial :: redial_pc
  in_shutdown :: bool
  panic :: "string option"
  trace :: "action list"

text \<open>What the scheduler, the broker and the application decide.\<close>

datatype pump_event =
    SlotChanClosed
  | LinkChanClosed
  | ConsumeReturns "go_error + stream"
  | Delivery delivery
  | DeliveriesClosed
  | AckReturns "go_error option"
  | Forwarded
  | Quit

datatype redial_event =
    CtxDone
  | DialReturns "go_error + conn"
  | ChannelReturns "go_error + chan"
  | ExchangeDeclareReturns "go_error option"
  | QueueDeclareReturns "go_error + int \<times> int"
  | QueueBindReturns "go_error option"

datatype app_event = CloseQuit | CallCancel

datatype event =
    SlotHandOff
  | LinkHandOff
  | Pump pump_event
  | Redial redial_event
  | App app_event

section \<open>The operations\<close>

definition emit :: "action list \<Rightarrow> sys \<Rightarrow> sys" where
  "emit as s = s\<lparr>trace := trace s @ as\<rparr>"

definition nil_dereference :: string where
  "nil_dereference = ''runtime error: invalid memory address or nil pointer dereference''"

definition close_of_closed :: string where
  "close_of_closed = ''close of closed channel''"

definition send_on_closed :: string where
  "send_on_closed = ''send on closed channel''"

text \<open>\<open>NewConsumer\<close> (lines 28-50): both goroutines are started, nothing has run yet.\<close>

definition NewConsumer ::
  "string \<Rightarrow> tls_config option \<Rightarrow> string \<Rightarrow> string \<Rightarrow> string \<Rightarrow> string \<Rightarrow> string \<Rightarrow> sys" where
  "NewConsumer uri tlsc ex exType q key tag =
     \<lparr>amqpURI = uri, tls = tlsc, exchange = ex, exchangeType = exType, queue = q,
      routingKey = key, ctag = tag, client = None, clientChanChan = Open,
      sendChan = Open, ctx_done = False, quit = Open, clientChan = Open,
      pump = AtRecvSlot, deliveries = None, redial = AtOffer, in_shutdown = False,
      panic = None, trace = []\<rparr>"

text \<open>The head of the loop of \<open>handle\<close> (line 63).\<close>

definition loop_head :: "sys \<Rightarrow> sys" where
  "loop_head s = (if client s = None then s\<lparr>pump := AtRecvSlot\<rparr> else s\<lparr>pump := AtSelect\<rparr>)"

text \<open>
  Modelled from the spec: \<open>_ = c.client.close(); c.client = nil; continue\<close>. The
  method \<open>close\<close> is not in consumer.go; the spec says it closes the Link, and its
  result is dropped. On a nil receiver it would read the fields of nil.
\<close>

definition drop_link :: "sys \<Rightarrow> sys" where
  "drop_link s =
     (case client s of
        None \<Rightarrow> s\<lparr>panic := Some nil_dereference\<rparr>
      | Some c \<Rightarrow> loop_head ((emit [ClientClose c] s)\<lparr>client := None\<rparr>))"

text \<open>\<open>handle\<close> (lines 58-108), one blocking operation at a time.\<close>

fun handle :: "pump_event \<Rightarrow> sys \<Rightarrow> sys option" where
  "handle SlotChanClosed s =
     (if pump s = AtRecvSlot \<and> clientChanChan s = Closed
      then Some ((emit [Log Err ''cannot get a new client; channel is closed'' []] s)
                   \<lparr>pump := PumpReturned\<rparr>)
      else None)"
| "handle LinkChanClosed s =
     (if pump s = AtRecvLink \<and> clientChan s = Closed
      then Some ((emit [Log Debug ''queue bound to exchange, starting consume (consumer tag '%s')''
                          [ArgStr (ctag s)]] s)
                   \<lparr>client := None, panic := Some nil_dereference\<rparr>)
      else None)"
| "handle (ConsumeReturns r) s =
     (if pump s = AtConsume
      then (case client s of
              None \<Rightarrow> Some (s\<lparr>panic := Some nil_dereference\<rparr>)
            | Some c \<Rightarrow>
                (let s1 = emit [Consume c (queue s) (ctag s) True False False False] s in
                 case r of
                   Inl e \<Rightarrow>
                     Some (drop_link
                       ((emit [Log Err ''deliver channel failed; error = %v'' [ArgErr e]] s1)
                          \<lparr>deliveries := None\<rparr>))
                 | Inr st \<Rightarrow> Some (s1\<lparr>deliveries := Some st, pump := AtSelect\<rparr>)))
      else None)"
| "handle (Delivery d) s =
     (if pump s = AtSelect \<and> deliveries s \<noteq> None
      then Some (s\<lparr>pump := AtAck d\<rparr>)
      else None)"
| "handle DeliveriesClosed s =
     (if pump s = AtSelect \<and> deliveries s \<noteq> None
      then Some (drop_link (emit [Log Err ''deliveries channel closed'' []] s))
      else None)"
| "handle (AckReturns r) s =
     (case pump s of
        AtAck d \<Rightarrow>
          (let s1 = emit [Ack d False r] s in
           case r of
             Some e \<Rightarrow> Some (drop_link s1)
           | None \<Rightarrow> Some (s1\<lparr>pump := AtSend d\<rparr>))
      | _ \<Rightarrow> None)"
| "handle Forwarded s =
     (case pump s of
        AtSend d \<Rightarrow>
          (if sendChan s = Closed then Some (s\<lparr>panic := Some send_on_closed\<rparr>)
           else Some (loop_head (emit [Forward d] s)))
      | _ \<Rightarrow> None)"
| "handle Quit s =
     (if pump s = AtSelect \<and> quit s = Closed
      then (if sendChan s = Closed then Some (s\<lparr>panic := Some close_of_closed\<rparr>)
            else Some ((emit [Close SendChan] s)\<lparr>sendChan := Closed, pump := PumpReturned\<rparr>))
      else None)"

text \<open>
  The two deferred closes of the supervisor goroutine (lines 115-116), run in reverse
  order of their registration when it returns.
\<close>

definition redial_return :: "sys \<Rightarrow> sys" where
  "redial_return s =
     (emit [Close ClientChan, Close ClientChanChan] s)
       \<lparr>clientChan := Closed, clientChanChan := Closed, redial := RedialReturned\<rparr>"

text \<open>
  The configuration of the dial (lines 133-141): the heartbeat, the timeout of the
  \<open>net.DialTimeout\<close> closure, and the TLS configuration when the consumer has one.
\<close>

definition dial_config :: "sys \<Rightarrow> amqp_config" where
  "dial_config s =
     (let cfg = \<lparr>Heartbeat = 10 * Second, DialTimeout = 10 * Second, TLSClientConfig = None\<rparr>
      in if tls s \<noteq> None then cfg\<lparr>TLSClientConfig := tls s\<rparr> else cfg)"

text \<open>The goroutine of \<open>redialConsumer\<close> (lines 113-204).\<close>

fun redialConsumer :: "redial_event \<Rightarrow> sys \<Rightarrow> sys option" where
  "redialConsumer CtxDone s =
     (if \<not> ctx_done s then None
      else (case redial s of
              AtOffer \<Rightarrow>
                Some (redial_return (emit [Log Err ''context done; error = %v'' [ArgDone]] s))
            | AtDeliver c \<Rightarrow>
                Some (redial_return
                  (emit [Log Err ''context done; error = %v''
                           [ArgErr (GoError ''context canceled'')]] s))
            | _ \<Rightarrow> None))"
| "redialConsumer (DialReturns r) s =
     (case redial s of
        AtDial c \<Rightarrow>
          (let s1 = emit [Log Debug ''Connecting to %s'' [ArgStr (amqpURI s)],
                          DialConfig (amqpURI s) (dial_config s)] s in
           case r of
             Inl e \<Rightarrow>
               Some (redial_return
                 (emit [Log Err ''dial %s failed; error = %v '' [ArgStr (amqpURI s), ArgErr e]] s1))
           | Inr cn \<Rightarrow> Some (s1\<lparr>redial := AtChannel (c\<lparr>connection := Some cn\<rparr>)\<rparr>))
      | _ \<Rightarrow> None)"
| "redialConsumer (ChannelReturns r) s =
     (case redial s of
        AtChannel c \<Rightarrow>
          (let s1 = emit [Log Debug ''Getting Channel'' [], OpenChannel c] s in
           case r of
             Inl e \<Rightarrow>
               Some (redial_return
                 (emit [Log Err ''get channel failed; error = %v'' [ArgErr e]] s1))
           | Inr ch \<Rightarrow> Some (s1\<lparr>redial := AtExchangeDeclare (c\<lparr>channel := Some ch\<rparr>)\<rparr>))
      | _ \<Rightarrow> None)"
| "redialConsumer (ExchangeDeclareReturns r) s =
     (case redial s of
        AtExchangeDeclare c \<Rightarrow>
          (let s1 = emit [Log Debug ''Declaring Exchange (%s)'' [ArgStr (exchange s)],
                          ExchangeDeclare c (exchange s) (exchangeType s) True False False False] s in
           case r of
             Some e \<Rightarrow>
               Some (redial_return
                 (emit [Log Err ''declare exchange failed; error = %v'' [ArgErr e]] s1))
           | None \<Rightarrow> Some (s1\<lparr>redial := AtQueueDeclare c\<rparr>))
      | _ \<Rightarrow> None)"
| "redialConsumer (QueueDeclareReturns r) s =
     (case redial s of
        AtQueueDeclare c \<Rightarrow>
          (let s1 = emit [Log Debug ''Declaring Queue (%s)'' [ArgStr (queue s)],
                          QueueDeclare c (queue s) True False False False] s in
           case r of
             Inl e \<Rightarrow>
               Some (redial_return
                 (emit [Log Err ''declare queue failed; error = %v'' [ArgErr e]] s1))
           | Inr (messages, consumers) \<Rightarrow>
               Some ((emit [Log Debug
                  ''Declared Queue (%d messages, %d consumers), binding to Exchange (key '%s')''
                  [ArgNum messages, ArgNum consumers, ArgStr (routingKey s)]] s1)
                       \<lparr>redial := AtQueueBind c\<rparr>))
      | _ \<Rightarrow> None)"
| "redialConsumer (QueueBindReturns r) s =
     (case redial s of
        AtQueueBind c \<Rightarrow>
          (let s1 = emit [QueueBind c (queue s) (routingKey s) (exchange s) False] s in
           case r of
             Some e \<Rightarrow>
               Some (redial_return
                 (emit [Log Err ''bind queue failed; error = %v'' [ArgErr e]] s1))
           | None \<Rightarrow> Some (s1\<lparr>redial := AtDeliver c\<rparr>))
      | _ \<Rightarrow> None)"

text \<open>
  \<open>Shutdown\<close> (lines 52-56) in its two halves: another goroutine may run between the
  close of \<open>quit\<close> and the call of \<open>cancel\<close>.
\<close>

fun Shutdown :: "app_event \<Rightarrow> sys \<Rightarrow> sys option" where
  "Shutdown CloseQuit s =
     (let s1 = emit [Log Warn ''consumer received shutdown ...'' []] s in
      if quit s1 = Closed then Some (s1\<lparr>panic := Some close_of_closed\<rparr>)
      else Some ((emit [Close QuitChan] s1)\<lparr>quit := Closed, in_shutdown := True\<rparr>))"
| "Shutdown CallCancel s =
     (if in_shutdown s
      then Some ((emit [Cancel] s)\<lparr>ctx_done := True, in_shutdown := False\<rparr>)
      else None)"

text \<open>
  One step of the whole program. The two sends of the supervisor (lines 120 and 198)
  complete together with the matching receives of \<open>handle\<close> (lines 64 and 69). A
  panic in any goroutine ends the process.
\<close>

fun exec :: "event \<Rightarrow> sys \<Rightarrow> sys option" where
  "exec SlotHandOff s =
     (if pump s = AtRecvSlot \<and> redial s = AtOffer
      then Some ((emit [HandSlot] s)
                   \<lparr>pump := AtRecvLink,
                    redial := AtDial \<lparr>connection = None, channel = None, confirms = None\<rparr>\<rparr>)
      else None)"
| "exec LinkHandOff s =
     (case redial s of
        AtDeliver c \<Rightarrow>
          (if pump s = AtRecvLink
           then Some ((emit [HandLink c,
                             Log Debug ''queue bound to exchange, starting consume (consumer tag '%s')''
                               [ArgStr (ctag s)]] s)
                        \<lparr>client := Some c, pump := AtConsume, redial := AtOffer\<rparr>)
           else None)
      | _ \<Rightarrow> None)"
| "exec (Pump e) s = handle e s"
| "exec (Redial e) s = redialConsumer e s"
| "exec (App e) s = Shutdown e s"

definition step :: "event \<Rightarrow> sys \<Rightarrow> sys option" where
  "step e s = (if panic s \<noteq> None then None else exec e s)"

fun run :: "event list \<Rightarrow> sys \<Rightarrow> sys option" where
  "run [] s = Some s"
| "run (e # es) s = (case step e s of None \<Rightarrow> None | Some s' \<Rightarrow> run es s')"

section \<open>Reading the trace\<close>

text \<open>
  The operations of \<open>handle\<close> on the broker and on the output sequence, and the
  operations of the supervisor goroutine. Calls of the logger are shared by all.
\<close>

fun by_pump :: "action \<Rightarrow> bool" where
  "by_pump (Consume c q t a x l w) = True"
| "by_pump (Ack d m r) = True"
| "by_pump (ClientClose c) = True"
| "by_pump (Forward d) = True"
| "by_pump (Close SendChan) = True"
| "by_pump _ = False"

fun by_redial :: "action \<Rightarrow> bool" where
  "by_redial (DialConfig u c) = True"
| "by_redial (OpenChannel c) = True"
| "by_redial (ExchangeDeclare c n k d a i w) = True"
| "by_redial (QueueDeclare c n d a x w) = True"
| "by_redial (QueueBind c q k x w) = True"
| "by_redial HandSlot = True"
| "by_redial (HandLink c) = True"
| "by_redial (Close ClientChan) = True"
| "by_redial (Close ClientChanChan) = True"
| "by_redial _ = False"

text \<open>The last operation of \<open>handle\<close> in a trace, if there is one.\<close>

definition last_by_pump :: "action list \<Rightarrow> action option" where
  "last_by_pump t = (case rev (filter by_pump t) of [] \<Rightarrow> None | a # _ \<Rightarrow> Some a)"

text \<open>
  The Links that \<open>handle\<close> has received and not closed, read off the trace from
  left to right.
\<close>

fun held :: "client list \<Rightarrow> action list \<Rightarrow> client list" where
  "held h [] = h"
| "held h (HandLink c # t) = held (c # h) t"
| "held h (ClientClose c # t) = held (remove1 c h) t"
| "held h (_ # t) = held h t"

text \<open>
  Whether the supervisor has begun a Link (dialled) that the pump has not accepted
  yet, read off the trace from left to right.
\<close>

fun undelivered :: "bool \<Rightarrow> action list \<Rightarrow> bool" where
  "undelivered b [] = b"
| "undelivered b (DialConfig u c # t) = undelivered True t"
| "undelivered b (HandLink c # t) = undelivered False t"
| "undelivered b (_ # t) = undelivered b t"

text \<open>
  Whether every dial in a trace comes when no earlier dialled Link is still waiting to
  be accepted; \<open>b\<close> says whether one is waiting at the start.
\<close>

fun serial :: "bool \<Rightarrow> action list \<Rightarrow> bool" where
  "serial b [] = True"
| "serial b (DialConfig u c # t) = (\<not> b \<and> serial True t)"
| "serial b (HandLink c # t) = serial False t"
| "serial b (_ # t) = serial b t"

text \<open>Program points of \<open>handle\<close> at which \<open>c.client\<close> is set, or nil.\<close>

fun consuming :: "pump_pc \<Rightarrow> bool" where
  "consuming AtConsume = True"
| "consuming AtSelect = True"
| "consuming (AtAck d) = True"
| "consuming (AtSend d) = True"
| "consuming _ = False"

fun subscribed :: "pump_pc \<Rightarrow> bool" where
  "subscribed AtSelect = True"
| "subscribed (AtAck d) = True"
| "subscribed (AtSend d) = True"
| "subscribed _ = False"

fun waiting :: "pump_pc \<Rightarrow> bool" where
  "waiting AtRecvSlot = True"
| "waiting AtRecvLink = True"
| "waiting _ = False"

text \<open>Program points of the supervisor between the accepted slot and the hand-off.\<close>

fun building :: "redial_pc \<Rightarrow> bool" where
  "building AtOffer = False"
| "building RedialReturned = False"
| "building _ = True"

text \<open>
  The failures of the supervisor's five broker calls, each at the program point of the
  call: the dial (line 143), the channel open (line 150), the exchange declaration
  (line 157), the queue declaration (line 171) and the queue binding (line 186).
\<close>

fun step_failure :: "redial_pc \<Rightarrow> redial_event \<Rightarrow> go_error option" where
  "step_failure (AtDial c) (DialReturns (Inl e)) = Some e"
| "step_failure (AtChannel c) (ChannelReturns (Inl e)) = Some e"
| "step_failure (AtExchangeDeclare c) (ExchangeDeclareReturns (Some e)) = Some e"
| "step_failure (AtQueueDeclare c) (QueueDeclareReturns (Inl e)) = Some e"
| "step_failure (AtQueueBind c) (QueueBindReturns (Some e)) = Some e"
| "step_failure _ _ = None"

text \<open>
  The three failures of a Link under \<open>handle\<close>: the subscription fails, the delivery
  stream is closed, an acknowledgment fails.
\<close>

fun link_failure :: "pump_pc \<Rightarrow> pump_event \<Rightarrow> bool" where
  "link_failure AtConsume (ConsumeReturns (Inl e)) = True"
| "link_failure AtSelect DeliveriesClosed = True"
| "link_failure (AtAck d) (AckReturns (Some e)) = True"
| "link_failure _ _ = False"

text \<open>The subscriptions in a trace.\<close>

fun is_consume :: "action \<Rightarrow> bool" where
  "is_consume (Consume c q t a x l w) = True"
| "is_consume _ = False"

text \<open>The Deliveries on the output sequence after \<open>Shutdown\<close> has closed \<open>quit\<close>.\<close>

fun is_forward :: "action \<Rightarrow> bool" where
  "is_forward (Forward d) = True"
| "is_forward _ = False"

definition forwarded_after_shutdown :: "action list \<Rightarrow> action list" where
  "forwarded_after_shutdown t = filter is_forward (dropWhile (\<lambda>a. a \<noteq> Close QuitChan) t)"

text \<open>
  The place of a supervisor operation within one iteration of its loop (lines
  118-203): slot, dial, channel, exchange, queue, binding, hand-off.
\<close>

fun stage :: "action \<Rightarrow> nat option" where
  "stage HandSlot = Some 0"
| "stage (DialConfig u c) = Some 1"
| "stage (OpenChannel c) = Some 2"
| "stage (ExchangeDeclare c n k d a i w) = Some 3"
| "stage (QueueDeclare c n d a x w) = Some 4"
| "stage (QueueBind c q k x w) = Some 5"
| "stage (HandLink c) = Some 6"
| "stage _ = None"

text \<open>The place expected next after a trace, starting from place \<open>n\<close>.\<close>

fun position :: "nat \<Rightarrow> action list \<Rightarrow> nat" where
  "position n [] = n"
| "position n (a # t) = (case stage a of None \<Rightarrow> position n t | Some k \<Rightarrow> position (Suc k mod 7) t)"

text \<open>Whether the supervisor operations of a trace come in the order of the loop.\<close>

fun in_order :: "nat \<Rightarrow> action list \<Rightarrow> bool" where
  "in_order n [] = True"
| "in_order n (a # t) =
     (case stage a of None \<Rightarrow> in_order n t | Some k \<Rightarrow> k = n \<and> in_order (Suc k mod 7) t)"

text \<open>
  Whether a broker call of the supervisor carries the consumer's configuration and
  the constants of lines 133-141, 157-164, 171-177 and 186-191.
\<close>

fun configured :: "sys \<Rightarrow> action \<Rightarrow> bool" where
  "configured s (DialConfig u cfg) =
     (u = amqpURI s \<and>
      cfg = \<lparr>Heartbeat = 10 * Second, DialTimeout = 10 * Second, TLSClientConfig = tls s\<rparr>)"
| "configured s (ExchangeDeclare c n k d a i w) =
     (n = exchange s \<and> k = exchangeType s \<and> d \<and> \<not> a \<and> \<not> i \<and> \<not> w)"
| "configured s (QueueDeclare c n d a x w) = (n = queue s \<and> d \<and> \<not> a \<and> \<not> x \<and> \<not> w)"
| "configured s (QueueBind c q k x w) =
     (q = queue s \<and> k = routingKey s \<and> x = exchange s \<and> \<not> w)"
| "configured s _ = True"

text \<open>The place at which each program point of the supervisor stands.\<close>

fun redial_stage :: "redial_pc \<Rightarrow> nat option" where
  "redial_stage AtOffer = Some 0"
| "redial_stage (AtDial c) = Some 1"
| "redial_stage (AtChannel c) = Some 2"
| "redial_stage (AtExchangeDeclare c) = Some 3"
| "redial_stage (AtQueueDeclare c) = Some 4"
| "redial_stage (AtQueueBind c) = Some 5"
| "redial_stage (AtDeliver c) = Some 6"
| "redial_stage RedialReturned = None"

text \<open>
  Every Delivery on the output sequence comes right after its successful
  acknowledgment, as far as the operations of \<open>handle\<close> go.
\<close>

definition acked_forwards :: "action list \<Rightarrow> bool" where
  "acked_forwards t \<longleftrightarrow>
     (\<forall>pre d post. t = pre @ Forward d # post \<longrightarrow> last_by_pump pre = Some (Ack d False None))"

text \<open>
  A close of the output sequence comes after the close of \<open>quit\<close>, is the only
  one, and no Delivery follows it.
\<close>

definition closes_cleanly :: "action list \<Rightarrow> bool" where
  "closes_cleanly t \<longleftrightarrow>
     (\<forall>pre post. t = pre @ Close SendChan # post \<longrightarrow>
        Close QuitChan \<in> set pre \<and> Close SendChan \<notin> set pre \<and> Close SendChan \<notin> set post \<and>
        (\<forall>d. Forward d \<notin> set post))"

section \<open>Invariants\<close>

text \<open>\<open>c.client\<close> and \<open>deliveries\<close> at the program points of the two goroutines.\<close>

definition link_inv :: "sys \<Rightarrow> bool" where
  "link_inv s \<longleftrightarrow>
     (waiting (pump s) \<longrightarrow> client s = None) \<and>
     (consuming (pump s) \<longrightarrow> client s \<noteq> None) \<and>
     (subscribed (pump s) \<longrightarrow> deliveries s \<noteq> None) \<and>
     (building (redial s) \<longrightarrow> pump s = AtRecvLink)"

text \<open>The channels and the goroutines that close them.\<close>

definition chan_inv :: "sys \<Rightarrow> bool" where
  "chan_inv s \<longleftrightarrow>
     (clientChanChan s = Closed \<longleftrightarrow> redial s = RedialReturned) \<and>
     (clientChan s = Closed \<longleftrightarrow> redial s = RedialReturned) \<and>
     (sendChan s = Closed \<longrightarrow> pump s = PumpReturned) \<and>
     (sendChan s = Closed \<longleftrightarrow> Close SendChan \<in> set (trace s)) \<and>
     (quit s = Closed \<longleftrightarrow> Close QuitChan \<in> set (trace s)) \<and>
     (in_shutdown s \<longrightarrow> quit s = Closed)"

text \<open>The configuration fields of two states agree.\<close>

definition same_config :: "sys \<Rightarrow> sys \<Rightarrow> bool" where
  "same_config s s' \<longleftrightarrow>
     amqpURI s' = amqpURI s \<and> tls s' = tls s \<and> exchange s' = exchange s \<and>
     exchangeType s' = exchangeType s \<and> queue s' = queue s \<and>
     routingKey s' = routingKey s \<and> ctag s' = ctag s"

text \<open>The Links held, read off the trace, are the Link in \<open>c.client\<close>.\<close>

definition held_inv :: "sys \<Rightarrow> bool" where
  "held_inv s \<longleftrightarrow> link_inv s \<and> held [] (trace s) = (case client s of None \<Rightarrow> [] | Some c \<Rightarrow> [c])"

text \<open>The supervisor dials only when no dialled Link is waiting to be accepted.\<close>

definition serial_inv :: "sys \<Rightarrow> bool" where
  "serial_inv s \<longleftrightarrow>
     serial False (trace s) \<and>
     (redial s = AtOffer \<or> (\<exists>c. redial s = AtDial c) \<longrightarrow> \<not> undelivered False (trace s))"

text \<open>
  Deliveries are forwarded after their acknowledgment, and a Delivery about to be
  sent has just been acknowledged.
\<close>

definition ack_inv :: "sys \<Rightarrow> bool" where
  "ack_inv s \<longleftrightarrow>
     acked_forwards (trace s) \<and>
     (\<forall>d. pump s = AtSend d \<longrightarrow> last_by_pump (trace s) = Some (Ack d False None))"

text \<open>The output sequence is closed after \<open>quit\<close>, once, and is silent afterwards.\<close>

definition close_inv :: "sys \<Rightarrow> bool" where
  "close_inv s \<longleftrightarrow> chan_inv s \<and> closes_cleanly (trace s)"

text \<open>The supervisor works in the order of its loop, with the configuration.\<close>

definition order_inv :: "sys \<Rightarrow> sys \<Rightarrow> bool" where
  "order_inv s0 s \<longleftrightarrow>
     same_config s0 s \<and> in_order 0 (trace s) \<and> (\<forall>a\<in>set (trace s). configured s0 a) \<and>
     (\<forall>n. redial_stage (redial s) = Some n \<longrightarrow> position 0 (trace s) = n)"

section \<open>An example consumer\<close>

definition example :: sys where
  "example = NewConsumer ''amqp://broker'' None ''events'' ''topic'' ''orders'' ''order.*'' ''tag''"

definition link1 :: client where
  "link1 = \<lparr>connection = Some 1, channel = Some 2, confirms = None\<rparr>"

text \<open>The supervisor builds a Link, hands it over, and the subscription starts.\<close>

definition acquire :: "event list" where
  "acquire =
     [SlotHandOff, Redial (DialReturns (Inr 1)), Redial (ChannelReturns (Inr 2)),
      Redial (ExchangeDeclareReturns None), Redial (QueueDeclareReturns (Inr (3, 0))),
      Redial (QueueBindReturns None), LinkHandOff, Pump (ConsumeReturns (Inr 5))]"

text \<open>The application calls \<open>Shutdown\<close> once, from start to end.\<close>

definition shut_down :: "event list" where
  "shut_down = [App CloseQuit, App CallCancel]"

text \<open>
  \<open>Shutdown\<close> is called at once, and the supervisor sees the cancellation at its
  first select.
\<close>

definition cancelled_early :: "event list" where
  "cancelled_early = [App CloseQuit, App CallCancel, Redial CtxDone]"

text \<open>
  The supervisor on its way to a Link: after \<open>n\<close> events it stands at the dial (1),
  the channel open (2), the exchange declaration (3), the queue declaration (4) or
  the queue binding (5).
\<close>

definition building_to :: "nat \<Rightarrow> event list" where
  "building_to n = take n acquire"

definition refused :: go_error where
  "refused = GoError ''refused''"

text \<open>A delivery is taken by the select, acknowledged and forwarded.\<close>

definition late_delivery :: "event list" where
  "late_delivery = [Pump (Delivery 7), Pump (AckReturns None), Pump Forwarded]"

text \<open>The delivery stream is closed and the supervisor dials again.\<close>

definition reconnect :: "event list" where
  "reconnect = [Pump DeliveriesClosed, SlotHandOff, Redial (DialReturns (Inr 8))]"

section \<open>Proof infrastructure\<close>

lemmas ops = emit_def loop_head_def drop_link_def redial_return_def

text \<open>Running the example consumer.\<close>

lemmas eval = example_def link1_def acquire_def shut_down_def NewConsumer_def step_def ops
  dial_config_def Second_def Let_def



lemma step_cases [consumes 1, case_names SlotHandOff LinkHandOff
    SlotChanClosed LinkChanClosed ConsumeNil ConsumeFail ConsumeOk Delivery
    DeliveriesClosedNil DeliveriesClosed AckFailNil AckFail AckOk ForwardedClosed Forwarded
    QuitClosed Quit CtxDoneOffer CtxDoneDeliver DialFail DialOk ChannelFail ChannelOk
    ExchangeFail ExchangeOk QueueFail QueueOk BindFail BindOk CloseQuitTwice CloseQuit
    CallCancel]:
  assumes "step e s = Some s'"
  obtains
    "e = SlotHandOff" "panic s = None" "pump s = AtRecvSlot" "redial s = AtOffer"
      "s' = (emit [HandSlot] s)
              \<lparr>pump := AtRecvLink,
               redial := AtDial \<lparr>connection = None, channel = None, confirms = None\<rparr>\<rparr>"
  | c where "e = LinkHandOff" "panic s = None" "pump s = AtRecvLink" "redial s = AtDeliver c"
      "s' = (emit [HandLink c,
                   Log Debug ''queue bound to exchange, starting consume (consumer tag '%s')''
                     [ArgStr (ctag s)]] s)
              \<lparr>client := Some c, pump := AtConsume, redial := AtOffer\<rparr>"
  | "e = Pump SlotChanClosed" "panic s = None" "pump s = AtRecvSlot" "clientChanChan s = Closed"
      "s' = (emit [Log Err ''cannot get a new client; channel is closed'' []] s)
              \<lparr>pump := PumpReturned\<rparr>"
  | "e = Pump LinkChanClosed" "panic s = None" "pump s = AtRecvLink" "clientChan s = Closed"
      "s' = (emit [Log Debug ''queue bound to exchange, starting consume (consumer tag '%s')''
                     [ArgStr (ctag s)]] s)
              \<lparr>client := None, panic := Some nil_dereference\<rparr>"
  | r where "e = Pump (ConsumeReturns r)" "panic s = None" "pump s = AtConsume" "client s = None"
      "s' = s\<lparr>panic := Some nil_dereference\<rparr>"
  | err c where "e = Pump (ConsumeReturns (Inl err))" "panic s = None" "pump s = AtConsume"
      "client s = Some c"
      "s' = (emit [Consume c (queue s) (ctag s) True False False False,
                   Log Err ''deliver channel failed; error = %v'' [ArgErr err],
                   ClientClose c] (s\<lparr>deliveries := None\<rparr>))
              \<lparr>client := None, pump := AtRecvSlot\<rparr>"
  | st c where "e = Pump (ConsumeReturns (Inr st))" "panic s = None" "pump s = AtConsume"
      "client s = Some c"
      "s' = (emit [Consume c (queue s) (ctag s) True False False False] s)
              \<lparr>deliveries := Some st, pump := AtSelect\<rparr>"
  | d where "e = Pump (Delivery d)" "panic s = None" "pump s = AtSelect" "deliveries s \<noteq> None"
      "s' = s\<lparr>pump := AtAck d\<rparr>"
  | "e = Pump DeliveriesClosed" "panic s = None" "pump s = AtSelect" "deliveries s \<noteq> None"
      "client s = None"
      "s' = (emit [Log Err ''deliveries channel closed'' []] s)\<lparr>panic := Some nil_dereference\<rparr>"
  | c where "e = Pump DeliveriesClosed" "panic s = None" "pump s = AtSelect"
      "deliveries s \<noteq> None" "client s = Some c"
      "s' = (emit [Log Err ''deliveries channel closed'' [], ClientClose c] s)
              \<lparr>client := None, pump := AtRecvSlot\<rparr>"
  | d err where "e = Pump (AckReturns (Some err))" "panic s = None" "pump s = AtAck d"
      "client s = None"
      "s' = (emit [Ack d False (Some err)] s)\<lparr>panic := Some nil_dereference\<rparr>"
  | d err c where "e = Pump (AckReturns (Some err))" "panic s = None" "pump s = AtAck d"
      "client s = Some c"
      "s' = (emit [Ack d False (Some err), ClientClose c] s)\<lparr>client := None, pump := AtRecvSlot\<rparr>"
  | d where "e = Pump (AckReturns None)" "panic s = None" "pump s = AtAck d"
      "s' = (emit [Ack d False None] s)\<lparr>pump := AtSend d\<rparr>"
  | d where "e = Pump Forwarded" "panic s = None" "pump s = AtSend d" "sendChan s = Closed"
      "s' = s\<lparr>panic := Some send_on_closed\<rparr>"
  | d where "e = Pump Forwarded" "panic s = None" "pump s = AtSend d" "sendChan s = Open"
      "s' = loop_head (emit [Forward d] s)"
  | "e = Pump Quit" "panic s = None" "pump s = AtSelect" "quit s = Closed" "sendChan s = Closed"
      "s' = s\<lparr>panic := Some close_of_closed\<rparr>"
  | "e = Pump Quit" "panic s = None" "pump s = AtSelect" "quit s = Closed" "sendChan s = Open"
      "s' = (emit [Close SendChan] s)\<lparr>sendChan := Closed, pump := PumpReturned\<rparr>"
  | "e = Redial CtxDone" "panic s = None" "ctx_done s" "redial s = AtOffer"
      "s' = redial_return (emit [Log Err ''context done; error = %v'' [ArgDone]] s)"
  | c where "e = Redial CtxDone" "panic s = None" "ctx_done s" "redial s = AtDeliver c"
      "s' = redial_return (emit [Log Err ''context done; error = %v''
                                   [ArgErr (GoError ''context canceled'')]] s)"
  | c err where "e = Redial (DialReturns (Inl err))" "panic s = None" "redial s = AtDial c"
      "s' = redial_return
              (emit [Log Debug ''Connecting to %s'' [ArgStr (amqpURI s)],
                     DialConfig (amqpURI s) (dial_config s),
                     Log Err ''dial %s failed; error = %v '' [ArgStr (amqpURI s), ArgErr err]] s)"
  | c cn where "e = Redial (DialReturns (Inr cn))" "panic s = None" "redial s = AtDial c"
      "s' = (emit [Log Debug ''Connecting to %s'' [ArgStr (amqpURI s)],
                   DialConfig (amqpURI s) (dial_config s)] s)
              \<lparr>redial := AtChannel (c\<lparr>connection := Some cn\<rparr>)\<rparr>"
  | c err where "e = Redial (ChannelReturns (Inl err))" "panic s = None" "redial s = AtChannel c"
      "s' = redial_return
              (emit [Log Debug ''Getting Channel'' [], OpenChannel c,
                     Log Err ''get channel failed; error = %v'' [ArgErr err]] s)"
  | c ch where "e = Redial (ChannelReturns (Inr ch))" "panic s = None" "redial s = AtChannel c"
      "s' = (emit [Log Debug ''Getting Channel'' [], OpenChannel c] s)
              \<lparr>redial := AtExchangeDeclare (c\<lparr>channel := Some ch\<rparr>)\<rparr>"
  | c err where "e = Redial (ExchangeDeclareReturns (Some err))" "panic s = None"
      "redial s = AtExchangeDeclare c"
      "s' = redial_return
              (emit [Log Debug ''Declaring Exchange (%s)'' [ArgStr (exchange s)],
                     ExchangeDeclare c (exchange s) (exchangeType s) True False False False,
                     Log Err ''declare exchange failed; error = %v'' [ArgErr err]] s)"
  | c where "e = Redial (ExchangeDeclareReturns None)" "panic s = None"
      "redial s = AtExchangeDeclare c"
      "s' = (emit [Log Debug ''Declaring Exchange (%s)'' [ArgStr (exchange s)],
                   ExchangeDeclare c (exchange s) (exchangeType s) True False False False] s)
              \<lparr>redial := AtQueueDeclare c\<rparr>"
  | c err where "e = Redial (QueueDeclareReturns (Inl err))" "panic s = None"
      "redial s = AtQueueDeclare c"
      "s' = redial_return
              (emit [Log Debug ''Declaring Queue (%s)'' [ArgStr (queue s)],
                     QueueDeclare c (queue s) True False False False,
                     Log Err ''declare queue failed; error = %v'' [ArgErr err]] s)"
  | c messages consumers where "e = Redial (QueueDeclareReturns (Inr (messages, consumers)))"
      "panic s = None" "redial s = AtQueueDeclare c"
      "s' = (emit [Log Debug ''Declaring Queue (%s)'' [ArgStr (queue s)],
                   QueueDeclare c (queue s) True False False False,
                   Log Debug
                     ''Declared Queue (%d messages, %d consumers), binding to Exchange (key '%s')''
                     [ArgNum messages, ArgNum consumers, ArgStr (routingKey s)]] s)
              \<lparr>redial := AtQueueBind c\<rparr>"
  | c err where "e = Redial (QueueBindReturns (Some err))" "panic s = None"
      "redial s = AtQueueBind c"
      "s' = redial_return
              (emit [QueueBind c (queue s) (routingKey s) (exchange s) False,
                     Log Err ''bind queue failed; error = %v'' [ArgErr err]] s)"
  | c where "e = Redial (QueueBindReturns None)" "panic s = None" "redial s = AtQueueBind c"
      "s' = (emit [QueueBind c (queue s) (routingKey s) (exchange s) False] s)
              \<lparr>redial := AtDeliver c\<rparr>"
  | "e = App CloseQuit" "panic s = None" "quit s = Closed"
      "s' = (emit [Log Warn ''consumer received shutdown ...'' []] s)
              \<lparr>panic := Some close_of_closed\<rparr>"
  | "e = App CloseQuit" "panic s = None" "quit s = Open"
      "s' = (emit [Log Warn ''consumer received shutdown ...'' [], Close QuitChan] s)
              \<lparr>quit := Closed, in_shutdown := True\<rparr>"
  | "e = App CallCancel" "panic s = None" "in_shutdown s"
      "s' = (emit [Cancel] s)\<lparr>ctx_done := True, in_shutdown := False\<rparr>"
proof -
  from assms have np: "panic s = None" and ex: "exec e s = Some s'"
    by (simp_all add: step_def split: if_splits)
  show ?thesis
  proof (cases e)
    case SlotHandOff
    with ex np that(1) show ?thesis by (simp add: ops split: if_splits)
  next
    case LinkHandOff
    from ex LinkHandOff obtain c where c: "redial s = AtDeliver c"
      by (cases "redial s") simp_all
    with ex np LinkHandOff that(2)[of c] show ?thesis by (simp add: ops split: if_splits)
  next
    case (Pump pe)
    with ex have h: "handle pe s = Some s'" by simp
    show ?thesis
    proof (cases pe)
      case SlotChanClosed
      with h np Pump that(3) show ?thesis by (simp add: ops split: if_splits)
    next
      case LinkChanClosed
      with h np Pump that(4) show ?thesis by (simp add: ops split: if_splits)
    next
      case (ConsumeReturns r)
      show ?thesis
      proof (cases "client s")
        case None
        with h np Pump ConsumeReturns that(5)[of r] show ?thesis by (simp split: if_splits)
      next
        case (Some c)
        show ?thesis
        proof (cases r)
          case (Inl err)
          with h np Pump ConsumeReturns Some that(6)[of err c] show ?thesis
            by (simp add: ops split: if_splits)
        next
          case (Inr st)
          with h np Pump ConsumeReturns Some that(7)[of st c] show ?thesis
            by (simp add: ops split: if_splits)
        qed
      qed
    next
      case (Delivery d)
      with h np Pump that(8)[of d] show ?thesis by (simp split: if_splits)
    next
      case DeliveriesClosed
      show ?thesis
      proof (cases "client s")
        case None
        with h np Pump DeliveriesClosed that(9) show ?thesis by (simp add: ops split: if_splits)
      next
        case (Some c)
        with h np Pump DeliveriesClosed that(10)[of c] show ?thesis
          by (simp add: ops split: if_splits)
      qed
    next
      case (AckReturns r)
      from h AckReturns obtain d where d: "pump s = AtAck d"
        by (cases "pump s") simp_all
      show ?thesis
      proof (cases r)
        case None
        with h np Pump AckReturns d that(13)[of d] show ?thesis by (simp add: ops)
      next
        case (Some err)
        note r = this
        show ?thesis
        proof (cases "client s")
          case None
          with h np Pump AckReturns d r that(11)[of err d] show ?thesis by (simp add: ops)
        next
          case (Some c)
          with h np Pump AckReturns d r that(12)[of err d c] show ?thesis by (simp add: ops)
        qed
      qed
    next
      case Forwarded
      from h Forwarded obtain d where d: "pump s = AtSend d"
        by (cases "pump s") simp_all
      show ?thesis
      proof (cases "sendChan s")
        case Open
        with h np Pump Forwarded d that(15)[of d] show ?thesis by simp
      next
        case Closed
        with h np Pump Forwarded d that(14)[of d] show ?thesis by simp
      qed
    next
      case Quit
      show ?thesis
      proof (cases "sendChan s")
        case Open
        with h np Pump Quit that(17) show ?thesis by (simp add: ops split: if_splits)
      next
        case Closed
        with h np Pump Quit that(16) show ?thesis by (simp split: if_splits)
      qed
    qed
  next
    case (Redial re)
    with ex have h: "redialConsumer re s = Some s'" by simp
    show ?thesis
    proof (cases re)
      case CtxDone
      with h have cd: "ctx_done s" by (simp split: if_splits)
      show ?thesis
      proof (cases "redial s")
        case AtOffer
        with h np cd Redial CtxDone that(18) show ?thesis by simp
      next
        case (AtDeliver c)
        with h np cd Redial CtxDone that(19)[of c] show ?thesis by simp
      qed (use h cd CtxDone in simp_all)
    next
      case (DialReturns r)
      from h DialReturns obtain c where c: "redial s = AtDial c"
        by (cases "redial s") simp_all
      show ?thesis
      proof (cases r)
        case (Inl err)
        with h np Redial DialReturns c that(20)[of err c] show ?thesis by (simp add: emit_def)
      next
        case (Inr cn)
        with h np Redial DialReturns c that(21)[of cn c] show ?thesis by (simp add: emit_def)
      qed
    next
      case (ChannelReturns r)
      from h ChannelReturns obtain c where c: "redial s = AtChannel c"
        by (cases "redial s") simp_all
      show ?thesis
      proof (cases r)
        case (Inl err)
        with h np Redial ChannelReturns c that(22)[of err c] show ?thesis by (simp add: emit_def)
      next
        case (Inr ch)
        with h np Redial ChannelReturns c that(23)[of ch c] show ?thesis by (simp add: emit_def)
      qed
    next
      case (ExchangeDeclareReturns r)
      from h ExchangeDeclareReturns obtain c where c: "redial s = AtExchangeDeclare c"
        by (cases "redial s") simp_all
      show ?thesis
      proof (cases r)
        case (Some err)
        with h np Redial ExchangeDeclareReturns c that(24)[of err c] show ?thesis
          by (simp add: emit_def)
      next
        case None
        with h np Redial ExchangeDeclareReturns c that(25)[of c] show ?thesis
          by (simp add: emit_def)
      qed
    next
      case (QueueDeclareReturns r)
      from h QueueDeclareReturns obtain c where c: "redial s = AtQueueDeclare c"
        by (cases "redial s") simp_all
      show ?thesis
      proof (cases r)
        case (Inl err)
        with h np Redial QueueDeclareReturns c that(26)[of err c] show ?thesis
          by (simp add: emit_def)
      next
        case (Inr mc)
        obtain m k where mc: "mc = (m, k)" by (cases mc)
        with Inr h np Redial QueueDeclareReturns c that(27)[of m k c] show ?thesis
          by (simp add: emit_def)
      qed
    next
      case (QueueBindReturns r)
      from h QueueBindReturns obtain c where c: "redial s = AtQueueBind c"
        by (cases "redial s") simp_all
      show ?thesis
      proof (cases r)
        case (Some err)
        with h np Redial QueueBindReturns c that(28)[of err c] show ?thesis
          by (simp add: emit_def)
      next
        case None
        with h np Redial QueueBindReturns c that(29)[of c] show ?thesis
          by (simp add: emit_def)
      qed
    qed
  next
    case (App ae)
    with ex have h: "Shutdown ae s = Some s'" by simp
    show ?thesis
    proof (cases ae)
      case CloseQuit
      show ?thesis
      proof (cases "quit s")
        case Open
        with h np App CloseQuit that(31) show ?thesis by (simp add: emit_def)
      next
        case Closed
        with h np App CloseQuit that(30) show ?thesis by (simp add: emit_def)
      qed
    next
      case CallCancel
      with h np App that(32) show ?thesis by (simp add: emit_def split: if_splits)
    qed
  qed
qed

lemma run_append: "run (es @ fs) s = (case run es s of None \<Rightarrow> None | Some s' \<Rightarrow> run fs s')"
  by (induction es arbitrary: s) (auto split: option.splits)

lemma run_invariant:
  assumes "run es s = Some s'" and "P s"
    and "\<And>e s s'. step e s = Some s' \<Longrightarrow> P s \<Longrightarrow> P s'"
  shows "P s'"
  using assms(1,2)
proof (induction es arbitrary: s)
  case Nil
  then show ?case by simp
next
  case (Cons e es)
  then show ?case by (auto split: option.splits intro: assms(3))
qed

lemma link_inv_step:
  assumes "step e s = Some s'" and "link_inv s"
  shows "link_inv s'"
  using assms by (cases rule: step_cases) (auto simp: link_inv_def ops)

lemma chan_inv_step:
  assumes "step e s = Some s'" and "chan_inv s"
  shows "chan_inv s'"
  using assms by (cases rule: step_cases) (auto simp: chan_inv_def ops)

lemma link_inv_run: "run es (NewConsumer uri tlsc exch kind qn key tag) = Some s \<Longrightarrow> link_inv s"
  by (erule run_invariant) (simp add: link_inv_def NewConsumer_def, erule (1) link_inv_step)

lemma chan_inv_run: "run es (NewConsumer uri tlsc exch kind qn key tag) = Some s \<Longrightarrow> chan_inv s"
  by (erule run_invariant) (simp add: chan_inv_def NewConsumer_def, erule (1) chan_inv_step)

lemma same_config_step:
  assumes "step e s = Some s'"
  shows "same_config s s'"
  using assms by (cases rule: step_cases) (auto simp: same_config_def ops)

text \<open>Once a goroutine has returned it does nothing more.\<close>

lemma pump_returned_step:
  assumes "step e s = Some s'" and "pump s = PumpReturned"
  shows "pump s' = PumpReturned \<and> client s' = client s \<and> sendChan s' = sendChan s \<and>
         filter by_pump (trace s') = filter by_pump (trace s)"
  using assms by (cases rule: step_cases) (auto simp: ops)

lemma redial_returned_step:
  assumes "step e s = Some s'" and "redial s = RedialReturned"
  shows "redial s' = RedialReturned \<and> clientChan s' = clientChan s \<and>
         clientChanChan s' = clientChanChan s \<and>
         filter by_redial (trace s') = filter by_redial (trace s)"
  using assms by (cases rule: step_cases) (auto simp: ops)

lemma pump_returned_run:
  assumes "run es s = Some s'" and "pump s = PumpReturned"
  shows "pump s' = PumpReturned \<and> client s' = client s \<and> sendChan s' = sendChan s \<and>
         filter by_pump (trace s') = filter by_pump (trace s)"
  using assms
proof (induction es arbitrary: s)
  case Nil
  then show ?case by simp
next
  case (Cons e es)
  from Cons.prems obtain s1 where s1: "step e s = Some s1" "run es s1 = Some s'"
    by (auto split: option.splits)
  from pump_returned_step[OF s1(1) Cons.prems(2)] Cons.IH[OF s1(2)] show ?case by simp
qed

lemma redial_returned_run:
  assumes "run es s = Some s'" and "redial s = RedialReturned"
  shows "redial s' = RedialReturned \<and> clientChan s' = clientChan s \<and>
         clientChanChan s' = clientChanChan s \<and>
         filter by_redial (trace s') = filter by_redial (trace s)"
  using assms
proof (induction es arbitrary: s)
  case Nil
  then show ?case by simp
next
  case (Cons e es)
  from Cons.prems obtain s1 where s1: "step e s = Some s1" "run es s1 = Some s'"
    by (auto split: option.splits)
  from redial_returned_step[OF s1(1) Cons.prems(2)] Cons.IH[OF s1(2)] show ?case by simp
qed

text \<open>The Links held, read off the trace, are the Link in \<open>c.client\<close>.\<close>

lemma held_append: "held h (t @ u) = held (held h t) u"
  by (induction h t rule: held.induct) simp_all

lemma held_inv_step:
  assumes "step e s = Some s'" and "held_inv s"
  shows "held_inv s'"
proof -
  from assms have "link_inv s'" by (simp add: held_inv_def link_inv_step)
  moreover from assms have "held [] (trace s') = (case client s' of None \<Rightarrow> [] | Some c \<Rightarrow> [c])"
    by (cases rule: step_cases) (auto simp: held_inv_def link_inv_def ops held_append)
  ultimately show ?thesis by (simp add: held_inv_def)
qed

lemma held_inv_run: "run es (NewConsumer uri tlsc exch kind qn key tag) = Some s \<Longrightarrow> held_inv s"
  by (erule run_invariant) (simp add: held_inv_def link_inv_def NewConsumer_def, erule (1) held_inv_step)

text \<open>The supervisor dials only when no dialled Link is waiting to be accepted.\<close>

lemma undelivered_append: "undelivered b (t @ u) = undelivered (undelivered b t) u"
  by (induction b t rule: undelivered.induct) simp_all

lemma serial_append: "serial b (t @ u) \<longleftrightarrow> serial b t \<and> serial (undelivered b t) u"
  by (induction b t rule: serial.induct) auto

lemma serial_inv_step:
  assumes "step e s = Some s'" and "serial_inv s"
  shows "serial_inv s'"
  using assms
  by (cases rule: step_cases) (auto simp: serial_inv_def ops serial_append undelivered_append)

lemma serial_inv_run: "run es (NewConsumer uri tlsc exch kind qn key tag) = Some s \<Longrightarrow> serial_inv s"
  by (erule run_invariant) (simp add: serial_inv_def NewConsumer_def, erule (1) serial_inv_step)

lemma serial_between:
  "serial b (t1 @ DialConfig u c # t2 @ DialConfig u' c' # t3) \<Longrightarrow> \<exists>l. HandLink l \<in> set t2"
proof -
  have inner: "serial True (t2 @ DialConfig u' c' # t3) \<Longrightarrow> \<exists>l. HandLink l \<in> set t2"
  proof (induction t2)
    case Nil
    then show ?case by simp
  next
    case (Cons a t2)
    then show ?case by (cases a) auto
  qed
  assume "serial b (t1 @ DialConfig u c # t2 @ DialConfig u' c' # t3)"
  then have "serial True (t2 @ DialConfig u' c' # t3)"
    by (simp add: serial_append)
  then show ?thesis by (rule inner)
qed

text \<open>A closed \<open>quit\<close> channel stays closed, and \<open>Shutdown\<close> closes it.\<close>

lemma quit_closed_step:
  assumes "step e s = Some s'" and "quit s = Closed"
  shows "quit s' = Closed"
  using assms by (cases rule: step_cases) (auto simp: ops)

lemma quit_closed_run:
  assumes "run es s = Some s'" and "quit s = Closed"
  shows "quit s' = Closed"
  using assms(1) by (rule run_invariant) (rule assms(2), erule (1) quit_closed_step)

lemma CloseQuit_closes: "step (App CloseQuit) s = Some s' \<Longrightarrow> quit s' = Closed"
  by (cases "quit s") (auto simp: step_def emit_def Let_def split: if_splits)

lemma CloseQuit_run:
  "run es s = Some s' \<Longrightarrow> App CloseQuit \<in> set es \<Longrightarrow> quit s' = Closed"
proof (induction es arbitrary: s)
  case Nil
  then show ?case by simp
next
  case (Cons e es)
  from Cons.prems(1) obtain s1 where s1: "step e s = Some s1" "run es s1 = Some s'"
    by (auto split: option.splits)
  show ?case
  proof (cases "e = App CloseQuit")
    case True
    with s1 have "quit s1 = Closed" by (simp add: CloseQuit_closes)
    with s1(2) show ?thesis by (rule quit_closed_run)
  next
    case False
    with Cons.prems(2) have "App CloseQuit \<in> set es" by simp
    with s1(2) show ?thesis by (rule Cons.IH)
  qed
qed

lemma run_shut_down: "run shut_down example \<noteq> None"
  by (simp add: eval)

text \<open>Lemmas about traces.\<close>

lemma snoc_eq_split:
  "t @ [a] = pre @ x # post \<longleftrightarrow>
     (pre = t \<and> x = a \<and> post = []) \<or> (\<exists>p. post = p @ [a] \<and> t = pre @ x # p)"
  by (cases post rule: rev_cases) auto

lemma last_by_pump_Nil: "last_by_pump [] = None"
  by (simp add: last_by_pump_def)

lemma last_by_pump_append:
  "last_by_pump (t @ u) = (case last_by_pump u of None \<Rightarrow> last_by_pump t | Some a \<Rightarrow> Some a)"
  by (simp add: last_by_pump_def split: list.splits)

lemma last_by_pump_single: "last_by_pump [a] = (if by_pump a then Some a else None)"
  by (simp add: last_by_pump_def)

lemma last_by_pump_Cons:
  "last_by_pump (a # u) =
     (case last_by_pump u of None \<Rightarrow> (if by_pump a then Some a else None) | Some b \<Rightarrow> Some b)"
  by (simp add: last_by_pump_def split: list.splits)

lemmas last_by_pump_simps = last_by_pump_Nil last_by_pump_Cons last_by_pump_append

lemma acked_forwards_Nil: "acked_forwards []"
  by (simp add: acked_forwards_def)

lemma acked_forwards_snoc:
  "acked_forwards (t @ [a]) \<longleftrightarrow>
     acked_forwards t \<and> (\<forall>d. a = Forward d \<longrightarrow> last_by_pump t = Some (Ack d False None))"
  unfolding acked_forwards_def snoc_eq_split by (auto simp: all_conj_distrib) 

lemma acked_forwards_append:
  "\<forall>d. Forward d \<notin> set u \<Longrightarrow> acked_forwards (t @ u) = acked_forwards t"
proof (induction u rule: rev_induct)
  case Nil
  then show ?case by simp
next
  case (snoc a u)
  then show ?case by (auto simp: acked_forwards_snoc simp flip: append_assoc)
qed

lemma ack_inv_step:
  assumes "step e s = Some s'" and "ack_inv s"
  shows "ack_inv s'"
  using assms
  by (cases rule: step_cases)
    (auto simp: ack_inv_def ops acked_forwards_append acked_forwards_snoc last_by_pump_simps)

lemma ack_inv_run: "run es (NewConsumer uri tlsc exch kind qn key tag) = Some s \<Longrightarrow> ack_inv s"
  by (erule run_invariant)
    (simp add: ack_inv_def acked_forwards_Nil NewConsumer_def, erule (1) ack_inv_step)

lemma closes_cleanly_Nil: "closes_cleanly []"
  by (simp add: closes_cleanly_def)

lemma closes_cleanly_snoc:
  "closes_cleanly (t @ [a]) \<longleftrightarrow>
     closes_cleanly t \<and>
     (a = Close SendChan \<longrightarrow> Close QuitChan \<in> set t \<and> Close SendChan \<notin> set t) \<and>
     (Close SendChan \<in> set t \<longrightarrow> a \<noteq> Close SendChan \<and> (\<forall>d. a \<noteq> Forward d))"
proof
  assume cc: "closes_cleanly (t @ [a])"
  have 1: "closes_cleanly t"
    unfolding closes_cleanly_def
  proof (intro allI impI)
    fix pre post
    assume "t = pre @ Close SendChan # post"
    then have "t @ [a] = pre @ Close SendChan # (post @ [a])" by simp
    with cc show "Close QuitChan \<in> set pre \<and> Close SendChan \<notin> set pre \<and>
        Close SendChan \<notin> set post \<and> (\<forall>d. Forward d \<notin> set post)"
      unfolding closes_cleanly_def by fastforce
  qed
  have 2: "a = Close SendChan \<longrightarrow> Close QuitChan \<in> set t \<and> Close SendChan \<notin> set t"
    using cc unfolding closes_cleanly_def by fastforce
  have 3: "Close SendChan \<in> set t \<longrightarrow> a \<noteq> Close SendChan \<and> (\<forall>d. a \<noteq> Forward d)"
  proof
    assume "Close SendChan \<in> set t"
    then obtain pre post where "t = pre @ Close SendChan # post" by (auto dest: split_list)
    then have "t @ [a] = pre @ Close SendChan # (post @ [a])" by simp
    with cc have "Close SendChan \<notin> set (post @ [a]) \<and> (\<forall>d. Forward d \<notin> set (post @ [a]))"
      unfolding closes_cleanly_def by blast
    then show "a \<noteq> Close SendChan \<and> (\<forall>d. a \<noteq> Forward d)" by auto
  qed
  from 1 2 3 show "closes_cleanly t \<and>
     (a = Close SendChan \<longrightarrow> Close QuitChan \<in> set t \<and> Close SendChan \<notin> set t) \<and>
     (Close SendChan \<in> set t \<longrightarrow> a \<noteq> Close SendChan \<and> (\<forall>d. a \<noteq> Forward d))"
    by simp
next
  assume h: "closes_cleanly t \<and>
     (a = Close SendChan \<longrightarrow> Close QuitChan \<in> set t \<and> Close SendChan \<notin> set t) \<and>
     (Close SendChan \<in> set t \<longrightarrow> a \<noteq> Close SendChan \<and> (\<forall>d. a \<noteq> Forward d))"
  show "closes_cleanly (t @ [a])"
    unfolding closes_cleanly_def
  proof (intro allI impI)
    fix pre post
    assume "t @ [a] = pre @ Close SendChan # post"
    then consider "pre = t" "a = Close SendChan" "post = []"
      | p where "post = p @ [a]" "t = pre @ Close SendChan # p"
      unfolding snoc_eq_split by auto
    then show "Close QuitChan \<in> set pre \<and> Close SendChan \<notin> set pre \<and>
        Close SendChan \<notin> set post \<and> (\<forall>d. Forward d \<notin> set post)"
    proof cases
      case 1
      with h show ?thesis by simp
    next
      case 2
      with h have "Close QuitChan \<in> set pre \<and> Close SendChan \<notin> set pre \<and>
        Close SendChan \<notin> set p \<and> (\<forall>d. Forward d \<notin> set p)"
        unfolding closes_cleanly_def by blast
      moreover from 2 h have "a \<noteq> Close SendChan \<and> (\<forall>d. a \<noteq> Forward d)" by simp
      ultimately show ?thesis using 2 by auto
    qed
  qed
qed

lemma closes_cleanly_append:
  "\<forall>a\<in>set u. a \<noteq> Close SendChan \<and> (\<forall>d. a \<noteq> Forward d) \<Longrightarrow>
   closes_cleanly (t @ u) = closes_cleanly t"
proof (induction u rule: rev_induct)
  case Nil
  then show ?case by simp
next
  case (snoc a u)
  then show ?case by (auto simp: closes_cleanly_snoc simp flip: append_assoc)
qed

lemma close_inv_step:
  assumes "step e s = Some s'" and "close_inv s"
  shows "close_inv s'"
proof -
  from assms have ci: "chan_inv s" "chan_inv s'" by (simp_all add: close_inv_def chan_inv_step)
  from assms(1) assms(2) ci(1) have "closes_cleanly (trace s')"
    by (cases rule: step_cases)
      (auto simp: close_inv_def chan_inv_def ops closes_cleanly_append closes_cleanly_snoc)
  with ci show ?thesis by (simp add: close_inv_def)
qed


lemma close_inv_run: "run es (NewConsumer uri tlsc exch kind qn key tag) = Some s \<Longrightarrow> close_inv s"
  by (erule run_invariant)
    (simp add: close_inv_def chan_inv_def closes_cleanly_Nil NewConsumer_def, erule (1) close_inv_step)

lemma position_append: "position n (t @ u) = position (position n t) u"
  by (induction n t rule: position.induct) (simp_all split: option.splits)

lemma in_order_append: "in_order n (t @ u) \<longleftrightarrow> in_order n t \<and> in_order (position n t) u"
  by (induction n t rule: in_order.induct) (auto split: option.splits)

lemma dial_config_eq:
  "dial_config s = \<lparr>Heartbeat = 10 * Second, DialTimeout = 10 * Second, TLSClientConfig = tls s\<rparr>"
  by (cases "tls s") (simp_all add: dial_config_def Let_def)

lemma order_inv_step:
  assumes "step e s = Some s'" and "order_inv s0 s"
  shows "order_inv s0 s'"
  using assms
  by (cases rule: step_cases)
    (auto simp: order_inv_def same_config_def ops in_order_append position_append dial_config_eq)

lemma order_inv_run:
  "run es (NewConsumer uri tlsc exch kind qn key tag) = Some s \<Longrightarrow>
   order_inv (NewConsumer uri tlsc exch kind qn key tag) s"
  by (erule run_invariant)
    (simp add: order_inv_def same_config_def NewConsumer_def, erule (1) order_inv_step)

text \<open>The report of a failed supervisor step.\<close>

lemma failure_reportI:
  "t' = t @ calls @ [Log Err fmt args, Close ClientChan, Close ClientChanChan] \<Longrightarrow>
   ArgErr err \<in> set args \<Longrightarrow>
   \<exists>calls fmt args. t' = t @ calls @ [Log Err fmt args, Close ClientChan, Close ClientChanChan] \<and>
      ArgErr err \<in> set args"
  by blast

section \<open>The claims\<close>

text \<open>
  C1: the subscription of a newly acquired Link. On the example consumer the one
  subscription that \<open>handle\<close> opens (lines 71-79) is the call of \<open>Consume\<close> on the
  Link with the queue, the consumer tag, and \<open>autoAck = true\<close>: the acknowledgment
  mode asked of the broker client is automatic, not manual.
\<close>

theorem Consume_called_with_autoAck:
  "map_option (filter is_consume \<circ> trace) (run acquire example) =
     Some [Consume link1 ''orders'' ''tag'' True False False False]"
  by (simp add: eval)

text \<open>
  C2: the hand-off point is closed. When \<open>handle\<close> finds the hand-off point closed
  (lines 64-68) it logs and returns; whatever happens afterwards, it stays returned,
  it performs no further operation (no Delivery is forwarded), and the output
  sequence is in the state it was in before: the code does not close it.
\<close>

theorem closed_hand_off_leaves_output_open:
  assumes "step (Pump SlotChanClosed) s = Some s'"
    and "run evs s' = Some s''"
  shows "pump s'' = PumpReturned \<and> sendChan s'' = sendChan s \<and>
         filter by_pump (trace s'') = filter by_pump (trace s)"
proof -
  from assms(1) have "pump s' = PumpReturned \<and> sendChan s' = sendChan s \<and>
      filter by_pump (trace s') = filter by_pump (trace s)"
    by (auto simp: step_def emit_def split: if_splits)
  with pump_returned_run[OF assms(2)] show ?thesis by simp
qed

theorem closed_hand_off_leaves_output_open_witness:
  "step (Pump SlotChanClosed) (the (run cancelled_early example)) \<noteq> None \<and>
   pump (the (run (cancelled_early @ [Pump SlotChanClosed]) example)) = PumpReturned \<and>
   sendChan (the (run (cancelled_early @ [Pump SlotChanClosed]) example)) = Open"
proof -
  have a: "step (Pump SlotChanClosed) (the (run cancelled_early example)) =
             Some (the (run (cancelled_early @ [Pump SlotChanClosed]) example))"
    by (simp add: eval cancelled_early_def)
  have b: "run [] (the (run (cancelled_early @ [Pump SlotChanClosed]) example)) =
             Some (the (run (cancelled_early @ [Pump SlotChanClosed]) example))"
    by simp
  have c: "sendChan (the (run cancelled_early example)) = Open"
    by (simp add: eval cancelled_early_def)
  from closed_hand_off_leaves_output_open[OF a b] a c show ?thesis by simp
qed

text \<open>
  C3, as stated, fails: on the example consumer \<open>Shutdown\<close> is called while a delivery
  is ready; the select of \<open>handle\<close> takes the delivery, and Delivery 7 is forwarded on
  the output sequence after \<open>quit\<close> was closed.
\<close>

theorem delivery_forwarded_after_shutdown:
  "map_option (forwarded_after_shutdown \<circ> trace) (run (acquire @ shut_down @ late_delivery) example) =
     Some [Forward 7]"
  by (simp add: eval late_delivery_def forwarded_after_shutdown_def)

text \<open>
  C3, amended: every close of the output sequence comes after \<open>Shutdown\<close> has closed
  \<open>quit\<close>, there is no second close, and no Delivery is forwarded after the close;
  and once \<open>quit\<close> is closed, the shutdown branch of the select of \<open>handle\<close> closes
  the output sequence and \<open>handle\<close> returns.
\<close>

theorem output_closed_once_and_last:
  assumes "run evs (NewConsumer uri tlsc exch kind qn key tag) = Some s"
  shows "(\<forall>pre post. trace s = pre @ Close SendChan # post \<longrightarrow>
            Close QuitChan \<in> set pre \<and> Close SendChan \<notin> set pre \<and>
            Close SendChan \<notin> set post \<and> (\<forall>d. Forward d \<notin> set post)) \<and>
         (pump s = AtSelect \<and> Close QuitChan \<in> set (trace s) \<and> panic s = None \<longrightarrow>
            step (Pump Quit) s =
              Some ((emit [Close SendChan] s)\<lparr>sendChan := Closed, pump := PumpReturned\<rparr>))"
proof -
  from assms have ci: "close_inv s" by (rule close_inv_run)
  then have 1: "\<forall>pre post. trace s = pre @ Close SendChan # post \<longrightarrow>
            Close QuitChan \<in> set pre \<and> Close SendChan \<notin> set pre \<and>
            Close SendChan \<notin> set post \<and> (\<forall>d. Forward d \<notin> set post)"
    by (simp add: close_inv_def closes_cleanly_def)
  have 2: "pump s = AtSelect \<and> Close QuitChan \<in> set (trace s) \<and> panic s = None \<longrightarrow>
            step (Pump Quit) s =
              Some ((emit [Close SendChan] s)\<lparr>sendChan := Closed, pump := PumpReturned\<rparr>)"
  proof
    assume h: "pump s = AtSelect \<and> Close QuitChan \<in> set (trace s) \<and> panic s = None"
    with ci have "quit s = Closed" "sendChan s \<noteq> Closed"
      by (auto simp: close_inv_def chan_inv_def)
    with h show "step (Pump Quit) s =
              Some ((emit [Close SendChan] s)\<lparr>sendChan := Closed, pump := PumpReturned\<rparr>)"
      by (simp add: step_def)
  qed
  from 1 2 show ?thesis by simp
qed

theorem output_closed_once_and_last_witness:
  "run (acquire @ shut_down @ [Pump Quit]) example \<noteq> None \<and>
   last (trace (the (run (acquire @ shut_down @ [Pump Quit]) example))) = Close SendChan \<and>
   Close QuitChan \<in> set (butlast (trace (the (run (acquire @ shut_down @ [Pump Quit]) example)))) \<and>
   Close SendChan \<notin> set (butlast (trace (the (run (acquire @ shut_down @ [Pump Quit]) example)))) \<and>
   pump (the (run (acquire @ shut_down) example)) = AtSelect \<and>
   map_option pump (step (Pump Quit) (the (run (acquire @ shut_down) example))) =
     Some PumpReturned"
proof -
  have a: "run (acquire @ shut_down @ [Pump Quit])
             (NewConsumer ''amqp://broker'' None ''events'' ''topic'' ''orders'' ''order.*'' ''tag'')
           = Some (the (run (acquire @ shut_down @ [Pump Quit]) example))"
    by (simp add: eval)
  have b: "trace (the (run (acquire @ shut_down @ [Pump Quit]) example)) =
             butlast (trace (the (run (acquire @ shut_down @ [Pump Quit]) example))) @
             Close SendChan # []"
    by (simp add: eval)
  have c: "run (acquire @ shut_down)
             (NewConsumer ''amqp://broker'' None ''events'' ''topic'' ''orders'' ''order.*'' ''tag'')
           = Some (the (run (acquire @ shut_down) example))"
    by (simp add: eval)
  have d: "pump (the (run (acquire @ shut_down) example)) = AtSelect \<and>
           Close QuitChan \<in> set (trace (the (run (acquire @ shut_down) example))) \<and>
           panic (the (run (acquire @ shut_down) example)) = None"
    by (simp add: eval)
  have e: "run (acquire @ shut_down @ [Pump Quit]) example \<noteq> None"
    "last (trace (the (run (acquire @ shut_down @ [Pump Quit]) example))) = Close SendChan"
    by (simp_all add: eval)
  from output_closed_once_and_last[OF a] b
  have 1: "Close QuitChan \<in> set (butlast (trace (the (run (acquire @ shut_down @ [Pump Quit]) example)))) \<and>
     Close SendChan \<notin> set (butlast (trace (the (run (acquire @ shut_down @ [Pump Quit]) example))))"
    by blast
  from output_closed_once_and_last[OF c] d
  have "step (Pump Quit) (the (run (acquire @ shut_down) example)) =
      Some ((emit [Close SendChan] (the (run (acquire @ shut_down) example)))
              \<lparr>sendChan := Closed, pump := PumpReturned\<rparr>)"
    by blast
  then have 2: "map_option pump (step (Pump Quit) (the (run (acquire @ shut_down) example))) =
     Some PumpReturned"
    by simp
  from 1 2 d e show ?thesis by simp
qed

text \<open>
  C4: acknowledge before forward. In every state the consumer can reach, each Delivery
  on the output sequence comes after the call of \<open>Ack\<close> on it returned success, with
  no operation of \<open>handle\<close> in between (lines 96-101); and when \<open>handle\<close> waits for
  the result of \<open>Ack\<close> and the call fails, \<open>handle\<close> closes the Link it holds, sets
  \<open>c.client\<close> to nil and goes back to the receive from the hand-off point, without
  forwarding the Delivery.
\<close>

theorem acknowledged_before_forwarded:
  assumes "run evs (NewConsumer uri tlsc exch kind qn key tag) = Some s"
  shows "(\<forall>pre d post. trace s = pre @ Forward d # post \<longrightarrow>
            last_by_pump pre = Some (Ack d False None)) \<and>
         (\<forall>d err. pump s = AtAck d \<and> panic s = None \<longrightarrow>
            (\<exists>c. client s = Some c \<and>
               step (Pump (AckReturns (Some err))) s =
                 Some ((emit [Ack d False (Some err), ClientClose c] s)
                         \<lparr>client := None, pump := AtRecvSlot\<rparr>)))"
proof -
  from assms have "ack_inv s" by (rule ack_inv_run)
  then have 1: "\<forall>pre d post. trace s = pre @ Forward d # post \<longrightarrow>
            last_by_pump pre = Some (Ack d False None)"
    by (simp add: ack_inv_def acked_forwards_def)
  from assms have li: "link_inv s" by (rule link_inv_run)
  have 2: "\<forall>d err. pump s = AtAck d \<and> panic s = None \<longrightarrow>
            (\<exists>c. client s = Some c \<and>
               step (Pump (AckReturns (Some err))) s =
                 Some ((emit [Ack d False (Some err), ClientClose c] s)
                         \<lparr>client := None, pump := AtRecvSlot\<rparr>))"
  proof (intro allI impI)
    fix d err
    assume h: "pump s = AtAck d \<and> panic s = None"
    with li obtain c where "client s = Some c" by (auto simp: link_inv_def)
    with h show "\<exists>c. client s = Some c \<and>
               step (Pump (AckReturns (Some err))) s =
                 Some ((emit [Ack d False (Some err), ClientClose c] s)
                         \<lparr>client := None, pump := AtRecvSlot\<rparr>)"
      by (simp add: step_def ops)
  qed
  from 1 2 show ?thesis by simp
qed

theorem acknowledged_before_forwarded_witness:
  "run (acquire @ late_delivery) example \<noteq> None \<and>
   last (trace (the (run (acquire @ late_delivery) example))) = Forward 7 \<and>
   last_by_pump (butlast (trace (the (run (acquire @ late_delivery) example)))) =
     Some (Ack 7 False None) \<and>
   pump (the (run (acquire @ [Pump (Delivery 7)]) example)) = AtAck 7 \<and>
   map_option pump (step (Pump (AckReturns (Some (GoError ''channel closed''))))
     (the (run (acquire @ [Pump (Delivery 7)]) example))) = Some AtRecvSlot"
proof -
  have a: "run (acquire @ late_delivery)
             (NewConsumer ''amqp://broker'' None ''events'' ''topic'' ''orders'' ''order.*'' ''tag'')
           = Some (the (run (acquire @ late_delivery) example))"
    by (simp add: eval late_delivery_def)
  have b: "trace (the (run (acquire @ late_delivery) example)) =
             butlast (trace (the (run (acquire @ late_delivery) example))) @ Forward 7 # []"
    by (simp add: eval late_delivery_def)
  have c: "run (acquire @ [Pump (Delivery 7)])
             (NewConsumer ''amqp://broker'' None ''events'' ''topic'' ''orders'' ''order.*'' ''tag'')
           = Some (the (run (acquire @ [Pump (Delivery 7)]) example))"
    by (simp add: eval late_delivery_def)
  have d: "pump (the (run (acquire @ [Pump (Delivery 7)]) example)) = AtAck 7 \<and>
           panic (the (run (acquire @ [Pump (Delivery 7)]) example)) = None"
    by (simp add: eval late_delivery_def)
  have e: "run (acquire @ late_delivery) example \<noteq> None"
    "last (trace (the (run (acquire @ late_delivery) example))) = Forward 7"
    by (simp_all add: eval late_delivery_def)
  from acknowledged_before_forwarded[OF a] b
  have 1: "last_by_pump (butlast (trace (the (run (acquire @ late_delivery) example)))) =
     Some (Ack 7 False None)"
    by blast
  from acknowledged_before_forwarded[OF c] d
  have "\<exists>c. client (the (run (acquire @ [Pump (Delivery 7)]) example)) = Some c \<and>
      step (Pump (AckReturns (Some (GoError ''channel closed''))))
        (the (run (acquire @ [Pump (Delivery 7)]) example)) =
      Some ((emit [Ack 7 False (Some (GoError ''channel closed'')), ClientClose c]
               (the (run (acquire @ [Pump (Delivery 7)]) example)))
              \<lparr>client := None, pump := AtRecvSlot\<rparr>)"
    by blast
  then have 2: "map_option pump (step (Pump (AckReturns (Some (GoError ''channel closed''))))
     (the (run (acquire @ [Pump (Delivery 7)]) example))) = Some AtRecvSlot"
    by auto
  from 1 2 d e show ?thesis by simp
qed

text \<open>
  C5: the Link held at shutdown. When \<open>handle\<close> takes the shutdown branch of its
  select (lines 103-105) in a state the consumer can reach, it holds a Link; whatever
  happens afterwards, \<open>c.client\<close> still is that Link and the only further operation of
  \<open>handle\<close> is the close of the output sequence: the Link is never closed.
\<close>

theorem Link_not_closed_on_shutdown:
  assumes "run evs0 (NewConsumer uri tlsc exch kind qn key tag) = Some s"
    and "step (Pump Quit) s = Some s'"
    and "run evs s' = Some s''"
  shows "client s \<noteq> None \<and> client s'' = client s \<and> pump s'' = PumpReturned \<and>
         filter by_pump (trace s'') = filter by_pump (trace s) @ [Close SendChan]"
proof -
  from assms(1) have li: "link_inv s" and ci: "chan_inv s"
    by (rule link_inv_run, rule chan_inv_run)
  from assms(2) have sel: "pump s = AtSelect" "panic s = None" "quit s = Closed"
    by (auto simp: step_def split: if_splits)
  from sel(1) li have c: "client s \<noteq> None" by (simp add: link_inv_def)
  from sel(1) ci have "sendChan s = Open" by (cases "sendChan s") (auto simp: chan_inv_def)
  with assms(2) sel have s': "s' = (emit [Close SendChan] s)\<lparr>sendChan := Closed, pump := PumpReturned\<rparr>"
    by (simp add: step_def)
  then have "pump s' = PumpReturned" "client s' = client s"
    "filter by_pump (trace s') = filter by_pump (trace s) @ [Close SendChan]"
    by (simp_all add: emit_def)
  with pump_returned_run[OF assms(3)] c show ?thesis by simp
qed

theorem Link_not_closed_on_shutdown_witness:
  "run (acquire @ shut_down) example \<noteq> None \<and>
   client (the (run (acquire @ shut_down @ [Pump Quit]) example)) = Some link1 \<and>
   pump (the (run (acquire @ shut_down @ [Pump Quit]) example)) = PumpReturned \<and>
   filter by_pump (trace (the (run (acquire @ shut_down @ [Pump Quit]) example))) =
     [Consume link1 ''orders'' ''tag'' True False False False, Close SendChan]"
proof -
  have a: "run (acquire @ shut_down)
             (NewConsumer ''amqp://broker'' None ''events'' ''topic'' ''orders'' ''order.*'' ''tag'')
           = Some (the (run (acquire @ shut_down) example))"
    by (simp add: eval)
  have b: "step (Pump Quit) (the (run (acquire @ shut_down) example)) =
             Some (the (run (acquire @ shut_down @ [Pump Quit]) example))"
    by (simp add: eval)
  have c: "run [] (the (run (acquire @ shut_down @ [Pump Quit]) example)) =
             Some (the (run (acquire @ shut_down @ [Pump Quit]) example))"
    by simp
  have d: "client (the (run (acquire @ shut_down) example)) = Some link1"
    "filter by_pump (trace (the (run (acquire @ shut_down) example))) =
       [Consume link1 ''orders'' ''tag'' True False False False]"
    by (simp_all add: eval)
  have e: "run (acquire @ shut_down) example \<noteq> None"
    by (simp add: eval)
  from Link_not_closed_on_shutdown[OF a b c] d e show ?thesis by simp
qed

text \<open>
  C6: a failure of a supervisor step is final. Whenever the process is alive and the
  supervisor stands at the dial, the channel open, the exchange declaration, the queue
  declaration or the queue binding, the failure of that call is a step of the program:
  after the calls of the step the supervisor logs the error and returns, which closes
  the slot and the hand-off point (lines 115-116), without a panic; and whatever
  happens afterwards, it stays returned, the two channels stay closed and it performs
  no further operation: no slot, no dial, no Link.
\<close>

theorem supervisor_failure_is_final:
  assumes "panic s = None"
    and "step_failure (redial s) e = Some err"
  shows "\<exists>s'. step (Redial e) s = Some s' \<and>
           redial s' = RedialReturned \<and> clientChan s' = Closed \<and> clientChanChan s' = Closed \<and>
           panic s' = None \<and>
           (\<exists>calls fmt args. trace s' = trace s @ calls @
               [Log Err fmt args, Close ClientChan, Close ClientChanChan] \<and> ArgErr err \<in> set args) \<and>
           (\<forall>evs s''. run evs s' = Some s'' \<longrightarrow>
              redial s'' = RedialReturned \<and> clientChan s'' = Closed \<and>
              clientChanChan s'' = Closed \<and>
              filter by_redial (trace s'') = filter by_redial (trace s'))"
proof -
  from assms obtain s' where st: "step (Redial e) s = Some s'"
    by (cases "(redial s, e)" rule: step_failure.cases) (simp_all add: step_def)
  from st assms(2,1) have ret: "redial s' = RedialReturned \<and> clientChan s' = Closed \<and>
      clientChanChan s' = Closed \<and> panic s' = None"
    by (cases rule: step_cases) (simp_all add: ops)
  from st assms(2) have report: "\<exists>calls fmt args. trace s' = trace s @ calls @
      [Log Err fmt args, Close ClientChan, Close ClientChanChan] \<and> ArgErr err \<in> set args"
  proof (cases rule: step_cases)
    case (DialFail c err')
    with assms(2) show ?thesis
      by - (rule failure_reportI[where calls = "[Log Debug ''Connecting to %s'' [ArgStr (amqpURI s)],
                     DialConfig (amqpURI s) (dial_config s)]"], simp add: ops, simp)
  next
    case (ChannelFail c err')
    with assms(2) show ?thesis
      by - (rule failure_reportI[where calls = "[Log Debug ''Getting Channel'' [], OpenChannel c]"],
          simp add: ops, simp)
  next
    case (ExchangeFail c err')
    with assms(2) show ?thesis
      by - (rule failure_reportI[where calls = "[Log Debug ''Declaring Exchange (%s)'' [ArgStr (exchange s)],
            ExchangeDeclare c (exchange s) (exchangeType s) True False False False]"],
          simp add: ops, simp)
  next
    case (QueueFail c err')
    with assms(2) show ?thesis
      by - (rule failure_reportI[where calls = "[Log Debug ''Declaring Queue (%s)'' [ArgStr (queue s)],
                     QueueDeclare c (queue s) True False False False]"], simp add: ops, simp)
  next
    case (BindFail c err')
    with assms(2) show ?thesis
      by - (rule failure_reportI[where calls = "[QueueBind c (queue s) (routingKey s) (exchange s) False]"],
          simp add: ops, simp)
  qed simp_all
  have fin: "\<forall>evs s''. run evs s' = Some s'' \<longrightarrow>
              redial s'' = RedialReturned \<and> clientChan s'' = Closed \<and>
              clientChanChan s'' = Closed \<and>
              filter by_redial (trace s'') = filter by_redial (trace s')"
  proof (intro allI impI)
    fix evs s''
    assume r: "run evs s' = Some s''"
    from ret have "redial s' = RedialReturned" by simp
    from redial_returned_run[OF r this] ret
    show "redial s'' = RedialReturned \<and> clientChan s'' = Closed \<and>
              clientChanChan s'' = Closed \<and>
              filter by_redial (trace s'') = filter by_redial (trace s')"
      by simp
  qed
  from st ret report fin show ?thesis by blast
qed

theorem supervisor_failure_is_final_witness:
  "step_failure (redial (the (run (building_to 1) example))) (DialReturns (Inl refused)) =
     Some refused \<and>
   map_option redial (step (Redial (DialReturns (Inl refused)))
     (the (run (building_to 1) example))) = Some RedialReturned \<and>
   step_failure (redial (the (run (building_to 2) example))) (ChannelReturns (Inl refused)) =
     Some refused \<and>
   map_option redial (step (Redial (ChannelReturns (Inl refused)))
     (the (run (building_to 2) example))) = Some RedialReturned \<and>
   step_failure (redial (the (run (building_to 3) example)))
     (ExchangeDeclareReturns (Some refused)) = Some refused \<and>
   map_option redial (step (Redial (ExchangeDeclareReturns (Some refused)))
     (the (run (building_to 3) example))) = Some RedialReturned \<and>
   step_failure (redial (the (run (building_to 4) example)))
     (QueueDeclareReturns (Inl refused)) = Some refused \<and>
   map_option redial (step (Redial (QueueDeclareReturns (Inl refused)))
     (the (run (building_to 4) example))) = Some RedialReturned \<and>
   step_failure (redial (the (run (building_to 5) example)))
     (QueueBindReturns (Some refused)) = Some refused \<and>
   map_option redial (step (Redial (QueueBindReturns (Some refused)))
     (the (run (building_to 5) example))) = Some RedialReturned \<and>
   map_option (filter by_redial \<circ> trace)
     (run (building_to 1 @ Redial (DialReturns (Inl refused)) # shut_down) example) =
     Some [HandSlot,
           DialConfig ''amqp://broker''
             \<lparr>Heartbeat = 10000000000, DialTimeout = 10000000000, TLSClientConfig = None\<rparr>,
           Close ClientChan, Close ClientChanChan]"
proof -
  have p: "panic (the (run (building_to 1) example)) = None"
    "panic (the (run (building_to 2) example)) = None"
    "panic (the (run (building_to 3) example)) = None"
    "panic (the (run (building_to 4) example)) = None"
    "panic (the (run (building_to 5) example)) = None"
    by (simp_all add: eval building_to_def)
  have f1: "step_failure (redial (the (run (building_to 1) example)))
              (DialReturns (Inl refused)) = Some refused"
    by (simp add: eval building_to_def)
  have f2: "step_failure (redial (the (run (building_to 2) example)))
              (ChannelReturns (Inl refused)) = Some refused"
    by (simp add: eval building_to_def)
  have f3: "step_failure (redial (the (run (building_to 3) example)))
              (ExchangeDeclareReturns (Some refused)) = Some refused"
    by (simp add: eval building_to_def)
  have f4: "step_failure (redial (the (run (building_to 4) example)))
              (QueueDeclareReturns (Inl refused)) = Some refused"
    by (simp add: eval building_to_def)
  have f5: "step_failure (redial (the (run (building_to 5) example)))
              (QueueBindReturns (Some refused)) = Some refused"
    by (simp add: eval building_to_def)
  from supervisor_failure_is_final[OF p(1) f1]
  have 1: "map_option redial (step (Redial (DialReturns (Inl refused)))
     (the (run (building_to 1) example))) = Some RedialReturned"
    by auto
  from supervisor_failure_is_final[OF p(2) f2]
  have 2: "map_option redial (step (Redial (ChannelReturns (Inl refused)))
     (the (run (building_to 2) example))) = Some RedialReturned"
    by auto
  from supervisor_failure_is_final[OF p(3) f3]
  have 3: "map_option redial (step (Redial (ExchangeDeclareReturns (Some refused)))
     (the (run (building_to 3) example))) = Some RedialReturned"
    by auto
  from supervisor_failure_is_final[OF p(4) f4]
  have 4: "map_option redial (step (Redial (QueueDeclareReturns (Inl refused)))
     (the (run (building_to 4) example))) = Some RedialReturned"
    by auto
  from supervisor_failure_is_final[OF p(5) f5]
  have 5: "map_option redial (step (Redial (QueueBindReturns (Some refused)))
     (the (run (building_to 5) example))) = Some RedialReturned"
    by auto
  have 6: "map_option (filter by_redial \<circ> trace)
     (run (building_to 1 @ Redial (DialReturns (Inl refused)) # shut_down) example) =
     Some [HandSlot,
           DialConfig ''amqp://broker''
             \<lparr>Heartbeat = 10000000000, DialTimeout = 10000000000, TLSClientConfig = None\<rparr>,
           Close ClientChan, Close ClientChanChan]"
    by (simp add: eval building_to_def refused_def)
  from f1 f2 f3 f4 f5 1 2 3 4 5 6 show ?thesis by simp
qed

text \<open>
  C7: the failures of a Link are recoverable. In every state the consumer can reach
  with the process alive, when the subscription fails, the delivery stream is closed
  or an acknowledgment fails, \<open>handle\<close> holds a Link, closes it as its last operation
  of the step, sets \<open>c.client\<close> to nil and stands again at the receive from the
  hand-off point (line 64); it has not returned and the process has not panicked.
\<close>

theorem Link_failures_are_recoverable:
  assumes "run evs (NewConsumer uri tlsc exch kind qn key tag) = Some s"
    and "panic s = None"
    and "link_failure (pump s) e"
  shows "\<exists>c s'. client s = Some c \<and> step (Pump e) s = Some s' \<and>
           (\<exists>acts. trace s' = trace s @ acts @ [ClientClose c]) \<and>
           client s' = None \<and> pump s' = AtRecvSlot \<and> panic s' = None"
proof -
  from assms(1) have li: "link_inv s" by (rule link_inv_run)
  from assms(3) have "consuming (pump s)"
    by (cases "(pump s, e)" rule: link_failure.cases) simp_all
  with li obtain c where c: "client s = Some c" by (auto simp: link_inv_def)
  from assms(3) show ?thesis
  proof (cases "(pump s, e)" rule: link_failure.cases)
    case (1 err)
    with c assms(2) show ?thesis
      by (simp add: step_def ops)
  next
    case 2
    with li have "deliveries s \<noteq> None" by (simp add: link_inv_def)
    with 2 c assms(2) show ?thesis
      by (simp add: step_def ops)
  next
    case (3 d err)
    with c assms(2) show ?thesis
      by (simp add: step_def ops)
  qed (use assms(3) in simp_all)
qed

theorem Link_failures_are_recoverable_witness:
  "run acquire example \<noteq> None \<and> panic (the (run acquire example)) = None \<and>
   link_failure (pump (the (run acquire example))) DeliveriesClosed \<and>
   client (the (run acquire example)) = Some link1 \<and>
   step (Pump DeliveriesClosed) (the (run acquire example)) \<noteq> None \<and>
   pump (the (step (Pump DeliveriesClosed) (the (run acquire example)))) = AtRecvSlot \<and>
   client (the (step (Pump DeliveriesClosed) (the (run acquire example)))) = None"
proof -
  have a: "run acquire
             (NewConsumer ''amqp://broker'' None ''events'' ''topic'' ''orders'' ''order.*'' ''tag'')
           = Some (the (run acquire example))"
    by (simp add: eval)
  have b: "panic (the (run acquire example)) = None" by (simp add: eval)
  have c: "link_failure (pump (the (run acquire example))) DeliveriesClosed"
    by (simp add: eval)
  have d: "run acquire example \<noteq> None" "client (the (run acquire example)) = Some link1"
    by (simp_all add: eval)
  from Link_failures_are_recoverable[OF a b c] b c d show ?thesis by auto
qed

text \<open>
  C8: one Link at a time. In every state the consumer can reach, \<open>handle\<close> holds at
  most one Link that it has received and not closed; while the supervisor is between
  an accepted slot and the hand-off of the Link it builds, \<open>handle\<close> holds none; and
  between any two dials of the supervisor a Link has been accepted through the
  hand-off: the supervisor begins the next Link only after the current one has been
  handed over.
\<close>

theorem one_Link_at_a_time:
  assumes "run evs (NewConsumer uri tlsc exch kind qn key tag) = Some s"
  shows "length (held [] (trace s)) \<le> 1 \<and>
         (building (redial s) \<longrightarrow> client s = None) \<and>
         (\<forall>t1 u c t2 u' c' t3.
            trace s = t1 @ DialConfig u c # t2 @ DialConfig u' c' # t3 \<longrightarrow>
            (\<exists>l. HandLink l \<in> set t2))"
proof -
  from assms have "held_inv s" by (rule held_inv_run)
  then have 1: "length (held [] (trace s)) \<le> 1"
    by (cases "client s") (simp_all add: held_inv_def)
  from assms have "link_inv s" by (rule link_inv_run)
  then have 2: "building (redial s) \<longrightarrow> client s = None"
    by (auto simp: link_inv_def)
  from assms have "serial_inv s" by (rule serial_inv_run)
  then have "serial False (trace s)" by (simp add: serial_inv_def)
  then have 3: "\<forall>t1 u c t2 u' c' t3.
            trace s = t1 @ DialConfig u c # t2 @ DialConfig u' c' # t3 \<longrightarrow>
            (\<exists>l. HandLink l \<in> set t2)"
    by (auto dest: serial_between)
  from 1 2 3 show ?thesis by simp
qed

theorem one_Link_at_a_time_witness:
  "run (acquire @ reconnect) example \<noteq> None \<and>
   building (redial (the (run (acquire @ reconnect) example))) \<and>
   client (the (run (acquire @ reconnect) example)) = None \<and>
   length (held [] (trace (the (run (acquire @ reconnect) example)))) \<le> 1 \<and>
   length (filter (\<lambda>a. stage a = Some 1) (trace (the (run (acquire @ reconnect) example)))) = 2 \<and>
   (\<exists>l. HandLink l \<in> set (take 15 (drop 3 (trace (the (run (acquire @ reconnect) example))))))"
proof -
  have a: "run (acquire @ reconnect)
             (NewConsumer ''amqp://broker'' None ''events'' ''topic'' ''orders'' ''order.*'' ''tag'')
           = Some (the (run (acquire @ reconnect) example))"
    by (simp add: eval reconnect_def)
  have b: "trace (the (run (acquire @ reconnect) example)) =
             take 2 (trace (the (run (acquire @ reconnect) example))) @
             DialConfig ''amqp://broker''
               \<lparr>Heartbeat = 10000000000, DialTimeout = 10000000000, TLSClientConfig = None\<rparr> #
             take 15 (drop 3 (trace (the (run (acquire @ reconnect) example)))) @
             DialConfig ''amqp://broker''
               \<lparr>Heartbeat = 10000000000, DialTimeout = 10000000000, TLSClientConfig = None\<rparr> #
             drop 19 (trace (the (run (acquire @ reconnect) example)))"
    by (simp add: eval reconnect_def)
  have c: "run (acquire @ reconnect) example \<noteq> None"
    "building (redial (the (run (acquire @ reconnect) example)))"
    "length (filter (\<lambda>a. stage a = Some 1) (trace (the (run (acquire @ reconnect) example)))) = 2"
    by (simp_all add: eval reconnect_def)
  from one_Link_at_a_time[OF a] b
  have "(\<exists>l. HandLink l \<in> set (take 15 (drop 3 (trace (the (run (acquire @ reconnect) example))))))"
    by blast
  with one_Link_at_a_time[OF a] c show ?thesis by simp
qed

text \<open>
  C9: the iteration of the supervisor. In every state the consumer can reach, the
  supervisor operations in the trace come in the order slot, dial, channel, exchange
  declaration, queue declaration, binding, hand-off, again and again, and every broker
  call carries the configuration: the dial has the URI, a heartbeat and a dial timeout
  of ten seconds and the TLS configuration of the consumer; the exchange is declared
  durable, not auto-deleted, not internal; the queue durable, not auto-deleted, not
  exclusive; the binding is of the queue to the exchange under the routing key. And
  from the offer of the slot, when every step succeeds, one iteration performs
  exactly these operations, logs the message and consumer counts that the queue
  declaration returned, and hands over the completed Link.
\<close>

theorem supervisor_iteration_in_order:
  assumes "run evs (NewConsumer uri tlsc exch kind qn key tag) = Some s"
  shows "in_order 0 (trace s) \<and>
         (\<forall>a\<in>set (trace s). configured (NewConsumer uri tlsc exch kind qn key tag) a) \<and>
         (panic s = None \<and> pump s = AtRecvSlot \<and> redial s = AtOffer \<longrightarrow>
            (\<exists>s'. run [SlotHandOff, Redial (DialReturns (Inr cn)), Redial (ChannelReturns (Inr ch)),
                       Redial (ExchangeDeclareReturns None),
                       Redial (QueueDeclareReturns (Inr (messages, consumers))),
                       Redial (QueueBindReturns None), LinkHandOff] s = Some s' \<and>
               trace s' = trace s @
                 [HandSlot,
                  Log Debug ''Connecting to %s'' [ArgStr uri],
                  DialConfig uri
                    \<lparr>Heartbeat = 10 * Second, DialTimeout = 10 * Second, TLSClientConfig = tlsc\<rparr>,
                  Log Debug ''Getting Channel'' [],
                  OpenChannel \<lparr>connection = Some cn, channel = None, confirms = None\<rparr>,
                  Log Debug ''Declaring Exchange (%s)'' [ArgStr exch],
                  ExchangeDeclare \<lparr>connection = Some cn, channel = Some ch, confirms = None\<rparr>
                    exch kind True False False False,
                  Log Debug ''Declaring Queue (%s)'' [ArgStr qn],
                  QueueDeclare \<lparr>connection = Some cn, channel = Some ch, confirms = None\<rparr>
                    qn True False False False,
                  Log Debug
                    ''Declared Queue (%d messages, %d consumers), binding to Exchange (key '%s')''
                    [ArgNum messages, ArgNum consumers, ArgStr key],
                  QueueBind \<lparr>connection = Some cn, channel = Some ch, confirms = None\<rparr>
                    qn key exch False,
                  HandLink \<lparr>connection = Some cn, channel = Some ch, confirms = None\<rparr>,
                  Log Debug ''queue bound to exchange, starting consume (consumer tag '%s')''
                    [ArgStr tag]] \<and>
               client s' = Some \<lparr>connection = Some cn, channel = Some ch, confirms = None\<rparr> \<and>
               pump s' = AtConsume \<and> redial s' = AtOffer))"
proof -
  from assms have oi: "order_inv (NewConsumer uri tlsc exch kind qn key tag) s"
    by (rule order_inv_run)
  then have cfg: "amqpURI s = uri" "tls s = tlsc" "exchange s = exch" "exchangeType s = kind"
    "queue s = qn" "routingKey s = key" "ctag s = tag"
    by (simp_all add: order_inv_def same_config_def NewConsumer_def)
  from oi have 1: "in_order 0 (trace s)"
    and 2: "\<forall>a\<in>set (trace s). configured (NewConsumer uri tlsc exch kind qn key tag) a"
    by (simp_all add: order_inv_def)
  from cfg have 3: "panic s = None \<and> pump s = AtRecvSlot \<and> redial s = AtOffer \<longrightarrow>
            (\<exists>s'. run [SlotHandOff, Redial (DialReturns (Inr cn)), Redial (ChannelReturns (Inr ch)),
                       Redial (ExchangeDeclareReturns None),
                       Redial (QueueDeclareReturns (Inr (messages, consumers))),
                       Redial (QueueBindReturns None), LinkHandOff] s = Some s' \<and>
               trace s' = trace s @
                 [HandSlot,
                  Log Debug ''Connecting to %s'' [ArgStr uri],
                  DialConfig uri
                    \<lparr>Heartbeat = 10 * Second, DialTimeout = 10 * Second, TLSClientConfig = tlsc\<rparr>,
                  Log Debug ''Getting Channel'' [],
                  OpenChannel \<lparr>connection = Some cn, channel = None, confirms = None\<rparr>,
                  Log Debug ''Declaring Exchange (%s)'' [ArgStr exch],
                  ExchangeDeclare \<lparr>connection = Some cn, channel = Some ch, confirms = None\<rparr>
                    exch kind True False False False,
                  Log Debug ''Declaring Queue (%s)'' [ArgStr qn],
                  QueueDeclare \<lparr>connection = Some cn, channel = Some ch, confirms = None\<rparr>
                    qn True False False False,
                  Log Debug
                    ''Declared Queue (%d messages, %d consumers), binding to Exchange (key '%s')''
                    [ArgNum messages, ArgNum consumers, ArgStr key],
                  QueueBind \<lparr>connection = Some cn, channel = Some ch, confirms = None\<rparr>
                    qn key exch False,
                  HandLink \<lparr>connection = Some cn, channel = Some ch, confirms = None\<rparr>,
                  Log Debug ''queue bound to exchange, starting consume (consumer tag '%s')''
                    [ArgStr tag]] \<and>
               client s' = Some \<lparr>connection = Some cn, channel = Some ch, confirms = None\<rparr> \<and>
               pump s' = AtConsume \<and> redial s' = AtOffer)"
    by (simp add: step_def ops dial_config_eq)
  from 1 2 3 show ?thesis by simp
qed

theorem supervisor_iteration_in_order_witness:
  "run (acquire @ [Pump DeliveriesClosed]) example \<noteq> None \<and>
   panic (the (run (acquire @ [Pump DeliveriesClosed]) example)) = None \<and>
   pump (the (run (acquire @ [Pump DeliveriesClosed]) example)) = AtRecvSlot \<and>
   redial (the (run (acquire @ [Pump DeliveriesClosed]) example)) = AtOffer \<and>
   in_order 0 (trace (the (run (acquire @ [Pump DeliveriesClosed]) example))) \<and>
   filter by_redial (trace (the (run (acquire @ [Pump DeliveriesClosed]) example))) =
     [HandSlot,
      DialConfig ''amqp://broker''
        \<lparr>Heartbeat = 10000000000, DialTimeout = 10000000000, TLSClientConfig = None\<rparr>,
      OpenChannel \<lparr>connection = Some 1, channel = None, confirms = None\<rparr>,
      ExchangeDeclare link1 ''events'' ''topic'' True False False False,
      QueueDeclare link1 ''orders'' True False False False,
      QueueBind link1 ''orders'' ''order.*'' ''events'' False,
      HandLink link1] \<and>
   map_option client
     (run [SlotHandOff, Redial (DialReturns (Inr 8)), Redial (ChannelReturns (Inr 9)),
           Redial (ExchangeDeclareReturns None), Redial (QueueDeclareReturns (Inr (0, 1))),
           Redial (QueueBindReturns None), LinkHandOff]
        (the (run (acquire @ [Pump DeliveriesClosed]) example))) =
     Some (Some \<lparr>connection = Some 8, channel = Some 9, confirms = None\<rparr>)"
proof -
  have a: "run (acquire @ [Pump DeliveriesClosed])
             (NewConsumer ''amqp://broker'' None ''events'' ''topic'' ''orders'' ''order.*'' ''tag'')
           = Some (the (run (acquire @ [Pump DeliveriesClosed]) example))"
    by (simp add: eval)
  have b: "panic (the (run (acquire @ [Pump DeliveriesClosed]) example)) = None \<and>
           pump (the (run (acquire @ [Pump DeliveriesClosed]) example)) = AtRecvSlot \<and>
           redial (the (run (acquire @ [Pump DeliveriesClosed]) example)) = AtOffer"
    by (simp add: eval)
  have c: "run (acquire @ [Pump DeliveriesClosed]) example \<noteq> None"
    "filter by_redial (trace (the (run (acquire @ [Pump DeliveriesClosed]) example))) =
     [HandSlot,
      DialConfig ''amqp://broker''
        \<lparr>Heartbeat = 10000000000, DialTimeout = 10000000000, TLSClientConfig = None\<rparr>,
      OpenChannel \<lparr>connection = Some 1, channel = None, confirms = None\<rparr>,
      ExchangeDeclare link1 ''events'' ''topic'' True False False False,
      QueueDeclare link1 ''orders'' True False False False,
      QueueBind link1 ''orders'' ''order.*'' ''events'' False,
      HandLink link1]"
    by (simp_all add: eval)
  from supervisor_iteration_in_order[OF a, of 8 9 0 1] b
  have 1: "in_order 0 (trace (the (run (acquire @ [Pump DeliveriesClosed]) example)))"
    and "\<exists>s'. run [SlotHandOff, Redial (DialReturns (Inr 8)), Redial (ChannelReturns (Inr 9)),
           Redial (ExchangeDeclareReturns None), Redial (QueueDeclareReturns (Inr (0, 1))),
           Redial (QueueBindReturns None), LinkHandOff]
        (the (run (acquire @ [Pump DeliveriesClosed]) example)) = Some s' \<and>
        client s' = Some \<lparr>connection = Some 8, channel = Some 9, confirms = None\<rparr>"
    by blast+
  then have 2: "map_option client
     (run [SlotHandOff, Redial (DialReturns (Inr 8)), Redial (ChannelReturns (Inr 9)),
           Redial (ExchangeDeclareReturns None), Redial (QueueDeclareReturns (Inr (0, 1))),
           Redial (QueueBindReturns None), LinkHandOff]
        (the (run (acquire @ [Pump DeliveriesClosed]) example))) =
     Some (Some \<lparr>connection = Some 8, channel = Some 9, confirms = None\<rparr>)"
    by auto
  from 1 2 b c show ?thesis by simp
qed

text \<open>
  C10: \<open>Shutdown\<close> is not idempotent. In every state the consumer can reach in which
  \<open>Shutdown\<close> has been called before and the process is still alive, a further call of
  \<open>Shutdown\<close> logs its warning and then panics on the close of the already closed
  \<open>quit\<close> channel (line 54).
\<close>

theorem Shutdown_twice_panics:
  assumes "run evs (NewConsumer uri tlsc exch kind qn key tag) = Some s"
    and "App CloseQuit \<in> set evs"
    and "panic s = None"
  shows "step (App CloseQuit) s =
           Some ((emit [Log Warn ''consumer received shutdown ...'' []] s)
                   \<lparr>panic := Some close_of_closed\<rparr>)"
proof -
  from assms(1,2) have "quit s = Closed" by (rule CloseQuit_run)
  with assms(3) show ?thesis by (simp add: step_def emit_def)
qed

theorem Shutdown_twice_panics_witness:
  "run shut_down example \<noteq> None \<and> App CloseQuit \<in> set shut_down \<and>
   panic (the (run shut_down example)) = None \<and>
   map_option panic (step (App CloseQuit) (the (run shut_down example))) =
     Some (Some close_of_closed)"
proof -
  have r: "run shut_down
             (NewConsumer ''amqp://broker'' None ''events'' ''topic'' ''orders'' ''order.*'' ''tag'')
           = Some (the (run shut_down example))"
    by (simp add: eval)
  have m: "App CloseQuit \<in> set shut_down" by (simp add: shut_down_def)
  have p: "panic (the (run shut_down example)) = None" by (simp add: eval)
  from Shutdown_twice_panics[OF r m p] run_shut_down m p show ?thesis by simp
qed

end
